theory Spec2Isabelle
  imports Complex_Main "HOL-Library.Sublist"
begin

section \<open>Shared types (src/shared/types.ts)\<close>

text \<open>
  \<^verbatim>\<open>SessionStatus\<close> and \<^verbatim>\<open>SessionBackend\<close> are string unions in the source.
  \<^verbatim>\<open>Record<string, unknown>\<close> values (metadata, context, data) are carried around
  and never inspected by the registry or the router; they are modelled as JSON trees.
  Timestamps and timeouts are JavaScript numbers holding milliseconds; they are
  modelled as unbounded integers.
\<close>

datatype SessionStatus = idle | working | waiting | offline

datatype SessionBackend = tmux | sdk

datatype json = JUndefined | JNull | JBool bool | JNum int | JStr string
  | JArr "json list" | JObj "(string \<times> json) list"

record AgentRegistryEntry =
  agentId :: string
  name :: string
  capabilities :: "string list"
  status :: SessionStatus
  backend :: SessionBackend
  cwd :: "string option"
  lastActivity :: int
  acceptsMessages :: bool
  metadata :: "json option"

text \<open>The fields of \<^verbatim>\<open>ManagedSession\<close> that the registry reads.\<close>

record ManagedSession =
  session_id :: string
  session_name :: string
  session_backend :: SessionBackend
  session_status :: SessionStatus
  session_lastActivity :: int
  session_cwd :: "string option"

record AgentRegistrationRequest =
  req_agentId :: string
  req_name :: string
  req_capabilities :: "string list"
  req_acceptsMessages :: "bool option"
  req_metadata :: "json option"

section \<open>JavaScript containers and strings\<close>

text \<open>
  A JavaScript \<^verbatim>\<open>Map\<close> iterates in insertion order, \<^verbatim>\<open>set\<close> on a present key
  keeps the key's position, and \<^verbatim>\<open>delete\<close> reports whether the key was present.
  It is modelled as an association list.
\<close>

definition Map_get :: "('k \<times> 'v) list \<Rightarrow> 'k \<Rightarrow> 'v option" where
  "Map_get m k = map_of m k"

fun Map_set :: "('k \<times> 'v) list \<Rightarrow> 'k \<Rightarrow> 'v \<Rightarrow> ('k \<times> 'v) list" where
  "Map_set [] k v = [(k, v)]"
| "Map_set ((k', v') # m) k v =
     (if k' = k then (k, v) # m else (k', v') # Map_set m k v)"

definition Map_has :: "('k \<times> 'v) list \<Rightarrow> 'k \<Rightarrow> bool" where
  "Map_has m k = (Map_get m k \<noteq> None)"

definition Map_delete :: "('k \<times> 'v) list \<Rightarrow> 'k \<Rightarrow> ('k \<times> 'v) list" where
  "Map_delete m k = filter (\<lambda>kv. fst kv \<noteq> k) m"

definition Map_values :: "('k \<times> 'v) list \<Rightarrow> 'v list" where
  "Map_values m = map snd m"

definition Map_keys :: "('k \<times> 'v) list \<Rightarrow> 'k list" where
  "Map_keys m = map fst m"

text \<open>\<^verbatim>\<open>[...new Set(xs)]\<close>: the elements of \<open>xs\<close> in order of first occurrence.\<close>

fun Set_spread :: "'a list \<Rightarrow> 'a list" where
  "Set_spread [] = []"
| "Set_spread (x # xs) = x # Set_spread (filter (\<lambda>y. y \<noteq> x) xs)"

text \<open>
  \<^verbatim>\<open>String.prototype.toLowerCase\<close> on the ASCII letters (other characters are left
  as they are) and \<^verbatim>\<open>String.prototype.includes\<close>.
\<close>

definition lower_char :: "char \<Rightarrow> char" where
  "lower_char c =
     (let n = (of_char c :: nat) in if 65 \<le> n \<and> n \<le> 90 then char_of (n + 32) else c)"

definition toLowerCase :: "string \<Rightarrow> string" where
  "toLowerCase s = map lower_char s"

fun String_includes :: "string \<Rightarrow> string \<Rightarrow> bool" where
  "String_includes [] needle = (needle = [])"
| "String_includes (c # cs) needle = (prefix needle (c # cs) \<or> String_includes cs needle)"

text \<open>
  \<^verbatim>\<open>Array.prototype.sort(compareFn)\<close>: the sort is stable, so for a consistent
  comparator its result is the one of a stable insertion sort.
\<close>

fun insert_sorted :: "('a \<Rightarrow> 'a \<Rightarrow> int) \<Rightarrow> 'a \<Rightarrow> 'a list \<Rightarrow> 'a list" where
  "insert_sorted cmp x [] = [x]"
| "insert_sorted cmp x (y # ys) =
     (if cmp x y \<le> 0 then x # y # ys else y # insert_sorted cmp x ys)"

definition Array_sort :: "('a \<Rightarrow> 'a \<Rightarrow> int) \<Rightarrow> 'a list \<Rightarrow> 'a list" where
  "Array_sort cmp xs = foldr (insert_sorted cmp) xs []"

section \<open>AgentRegistry (src/server/AgentRegistry.ts)\<close>

text \<open>
  The registry object: the agents map, the subscribed change callbacks (each stands
  for one external closure, identified by a handle) and, as the observable effect of
  \<^verbatim>\<open>notifyChange\<close>, the list of callback invocations made so far, each with the
  agent list it was passed. Logger calls have no effect on the state and are left out.
\<close>

record registry =
  agents :: "(string \<times> AgentRegistryEntry) list"
  changeCallbacks :: "nat list"
  notifications :: "(nat \<times> AgentRegistryEntry list) list"

definition getAll :: "registry \<Rightarrow> AgentRegistryEntry list" where
  "getAll r = Map_values (agents r)"

definition get :: "registry \<Rightarrow> string \<Rightarrow> AgentRegistryEntry option" where
  "get r aid = Map_get (agents r) aid"

definition notifyChange :: "registry \<Rightarrow> registry" where
  "notifyChange r =
     r\<lparr>notifications := notifications r @ map (\<lambda>cb. (cb, getAll r)) (changeCallbacks r)\<rparr>"

definition register :: "AgentRegistrationRequest \<Rightarrow> ManagedSession \<Rightarrow> registry
    \<Rightarrow> AgentRegistryEntry \<times> registry" where
  "register request session r =
     (let entry = \<lparr>agentId = req_agentId request, name = req_name request,
            capabilities = req_capabilities request, status = session_status session,
            backend = session_backend session, cwd = session_cwd session,
            lastActivity = session_lastActivity session,
            acceptsMessages = (case req_acceptsMessages request of None \<Rightarrow> True | Some b \<Rightarrow> b),
            metadata = req_metadata request\<rparr>
      in (entry, notifyChange (r\<lparr>agents := Map_set (agents r) (req_agentId request) entry\<rparr>)))"

definition inferCapabilities :: "ManagedSession \<Rightarrow> string list" where
  "inferCapabilities session =
     (let nameLower = toLowerCase (session_name session);
          c0 = [''general''];
          c1 = (if String_includes nameLower ''frontend'' \<or> String_includes nameLower ''ui''
                   \<or> String_includes nameLower ''react'' \<or> String_includes nameLower ''vue''
                then c0 @ [''frontend''] else c0);
          c2 = (if String_includes nameLower ''backend'' \<or> String_includes nameLower ''api''
                   \<or> String_includes nameLower ''server''
                then c1 @ [''backend''] else c1);
          c3 = (if String_includes nameLower ''database'' \<or> String_includes nameLower ''db''
                   \<or> String_includes nameLower ''sql'' \<or> String_includes nameLower ''postgres''
                then c2 @ [''database''] else c2);
          c4 = (if String_includes nameLower ''test'' \<or> String_includes nameLower ''spec''
                   \<or> String_includes nameLower ''e2e''
                then c3 @ [''testing''] else c3);
          c5 = (if String_includes nameLower ''devops'' \<or> String_includes nameLower ''deploy''
                   \<or> String_includes nameLower ''ci'' \<or> String_includes nameLower ''docker''
                then c4 @ [''devops''] else c4);
          c6 = (if String_includes nameLower ''security'' \<or> String_includes nameLower ''auth''
                   \<or> String_includes nameLower ''secure''
                then c5 @ [''security''] else c5)
      in Set_spread c6)"

definition registerFromSession :: "ManagedSession \<Rightarrow> registry \<Rightarrow> AgentRegistryEntry \<times> registry" where
  "registerFromSession session r =
     (let entry = \<lparr>agentId = session_id session, name = session_name session,
            capabilities = inferCapabilities session, status = session_status session,
            backend = session_backend session, cwd = session_cwd session,
            lastActivity = session_lastActivity session,
            acceptsMessages = True, metadata = Some (JObj [])\<rparr>
      in (entry, notifyChange (r\<lparr>agents := Map_set (agents r) (session_id session) entry\<rparr>)))"

definition unregister :: "string \<Rightarrow> registry \<Rightarrow> bool \<times> registry" where
  "unregister aid r =
     (let existed = Map_has (agents r) aid;
          r1 = r\<lparr>agents := Map_delete (agents r) aid\<rparr>
      in if existed then (existed, notifyChange r1) else (existed, r1))"

text \<open>\<^verbatim>\<open>updateStatus\<close> reads the clock once; its value is the argument \<open>now\<close>.\<close>

definition updateStatus :: "int \<Rightarrow> string \<Rightarrow> SessionStatus \<Rightarrow> registry \<Rightarrow> registry" where
  "updateStatus now aid st r =
     (case Map_get (agents r) aid of
        Some entry \<Rightarrow>
          notifyChange (r\<lparr>agents := Map_set (agents r) aid
                            (entry\<lparr>status := st, lastActivity := now\<rparr>)\<rparr>)
      | None \<Rightarrow> r)"

definition updateFromSession :: "ManagedSession \<Rightarrow> registry \<Rightarrow> registry" where
  "updateFromSession session r =
     (case Map_get (agents r) (session_id session) of
        Some entry \<Rightarrow>
          notifyChange (r\<lparr>agents := Map_set (agents r) (session_id session)
                            (entry\<lparr>status := session_status session,
                                   lastActivity := session_lastActivity session,
                                   cwd := session_cwd session\<rparr>)\<rparr>)
      | None \<Rightarrow> snd (registerFromSession session r))"

definition getMessageableAgents :: "registry \<Rightarrow> AgentRegistryEntry list" where
  "getMessageableAgents r =
     filter (\<lambda>a. acceptsMessages a \<and> status a \<noteq> offline) (getAll r)"

definition findByCapability :: "string \<Rightarrow> registry \<Rightarrow> AgentRegistryEntry list" where
  "findByCapability capability r =
     filter (\<lambda>agent. capability \<in> set (capabilities agent) \<and> acceptsMessages agent
                      \<and> status agent \<noteq> offline) (getAll r)"

fun statusPriority :: "SessionStatus \<Rightarrow> int" where
  "statusPriority idle = 0"
| "statusPriority working = 1"
| "statusPriority waiting = 2"
| "statusPriority offline = 3"

definition compareFn :: "AgentRegistryEntry \<Rightarrow> AgentRegistryEntry \<Rightarrow> int" where
  "compareFn a b =
     (let statusDiff = statusPriority (status a) - statusPriority (status b)
      in if statusDiff \<noteq> 0 then statusDiff else lastActivity b - lastActivity a)"

text \<open>The optional \<^verbatim>\<open>excludeAgentId\<close> is \<open>None\<close> when the argument is left out.\<close>

definition candidates_of :: "string \<Rightarrow> string option \<Rightarrow> registry \<Rightarrow> AgentRegistryEntry list" where
  "candidates_of capability excludeAgentId r =
     filter (\<lambda>a. Some (agentId a) \<noteq> excludeAgentId) (findByCapability capability r)"

definition findBestForCapability ::
    "string \<Rightarrow> string option \<Rightarrow> registry \<Rightarrow> AgentRegistryEntry option" where
  "findBestForCapability capability excludeAgentId r =
     (let candidates = candidates_of capability excludeAgentId r
      in if length candidates = 0 then None
         else (case Array_sort compareFn candidates of
                 [] \<Rightarrow> None
               | best # _ \<Rightarrow> Some best))"

definition isOnline :: "registry \<Rightarrow> string \<Rightarrow> bool" where
  "isOnline r aid = (case Map_get (agents r) aid of None \<Rightarrow> False | Some e \<Rightarrow> status e \<noteq> offline)"

definition clear :: "registry \<Rightarrow> registry" where
  "clear r = notifyChange (r\<lparr>agents := []\<rparr>)"

section \<open>AgentMessageRouter (src/server/AgentMessageRouter.ts): data\<close>

datatype AgentMessagePriority = low | normal | high | urgent

datatype AgentMessageRouting = direct | capability | broadcast_routing

record AgentMessageEvent =
  m_id :: string
  m_timestamp :: int
  m_sessionId :: string
  m_cwd :: string
  m_fromAgentId :: string
  m_fromAgentName :: string
  m_toAgentId :: "string option"
  m_toCapability :: "string option"
  m_routing :: AgentMessageRouting
  m_message :: string
  m_context :: "json option"
  m_priority :: AgentMessagePriority
  m_messageId :: string
  m_expectsResponse :: bool
  m_responseTimeout :: "int option"

record AgentMessageResponseEvent =
  r_id :: string
  r_timestamp :: int
  r_sessionId :: string
  r_cwd :: string
  r_fromAgentId :: string
  r_fromAgentName :: string
  r_toAgentId :: string
  r_inResponseTo :: string
  r_response :: string
  r_data :: "json option"
  r_success :: bool
  r_error :: "string option"

record AgentBroadcastEvent =
  b_id :: string
  b_timestamp :: int
  b_sessionId :: string
  b_cwd :: string
  b_fromAgentId :: string
  b_fromAgentName :: string
  b_channel :: string
  b_message :: string
  b_data :: "json option"

text \<open>The \<^verbatim>\<open>type\<close> tag of an event is the constructor.\<close>

datatype event =
    agent_message AgentMessageEvent
  | agent_message_response AgentMessageResponseEvent
  | agent_broadcast AgentBroadcastEvent

record SendAgentMessageRequest =
  toAgentId :: "string option"
  toCapability :: "string option"
  message :: string
  context_data :: "json option"
  priority :: "AgentMessagePriority option"
  expectsResponse :: "bool option"
  responseTimeout :: "int option"

record SendAgentMessageResponse =
  ok :: bool
  messageId :: "string option"
  targetAgentId :: "string option"
  error :: "string option"
  response :: "string option"
  responseData :: "json option"
  responseSuccess :: "bool option"
  responseReceivedAt :: "int option"

text \<open>An object literal of type \<^verbatim>\<open>SendAgentMessageResponse\<close> with no optional field set.\<close>

definition result_of :: "bool \<Rightarrow> SendAgentMessageResponse" where
  "result_of b = \<lparr>ok = b, messageId = None, targetAgentId = None, error = None,
      response = None, responseData = None, responseSuccess = None,
      responseReceivedAt = None\<rparr>"

record HandleResponseResult =
  delivered :: bool
  h_error :: "string option"

record BroadcastResult =
  sent :: nat
  failed :: nat

text \<open>
  A pending message. Its \<^verbatim>\<open>resolve\<close> and \<^verbatim>\<open>reject\<close> closures are the functions
  \<open>pending_resolve\<close> and \<open>pending_reject\<close> below; what they capture
  (\<^verbatim>\<open>messageId\<close>, \<^verbatim>\<open>targetAgentId\<close>) is stored in the record.
\<close>

record PendingMessage =
  p_messageId :: string
  p_fromAgentId :: string
  p_fromAgentName :: string
  p_toAgentId :: string
  p_toAgentName :: string
  p_sentAt :: int
  p_timeout :: int
  p_originalMessage :: string
  p_deliveryAttempts :: nat
  p_responseReceived :: bool

text \<open>
  The variable \<^verbatim>\<open>pendingPromiseResolve\<close> of the \<^verbatim>\<open>sendMessage\<close> call that drew a
  message id, together with the promise it resolves: \<open>Unassigned\<close> while the variable
  is \<^verbatim>\<open>undefined\<close>, \<open>Waiting\<close> once the promise executor has stored the resolver and
  the promise is pending, \<open>Fulfilled v\<close> once the resolver has been called with \<open>v\<close>.
\<close>

datatype promise = Unassigned | Waiting | Fulfilled SendAgentMessageResponse

datatype closure = resolve_closure | reject_closure

text \<open>A thrown value: an \<^verbatim>\<open>Error\<close> with its message, or a value that is no \<^verbatim>\<open>Error\<close>.\<close>

datatype thrown = Error string | NonError

text \<open>
  The router object. \<open>pendingMessages\<close>, \<open>messageHistory\<close> and \<open>timeoutChecker\<close>
  (is the interval timer set) are its fields. The other components record its
  effects: the events passed to the \<^verbatim>\<open>broadcastEvent\<close> callback, the calls of the
  \<^verbatim>\<open>deliverMessage\<close> callback, the invocations of the resolve and reject closures
  (by message id), and the resolver cells of the \<^verbatim>\<open>sendMessage\<close> calls, addressed by
  the message id each call drew from \<^verbatim>\<open>randomUUID\<close>.
\<close>

record router =
  pendingMessages :: "(string \<times> PendingMessage) list"
  messageHistory :: "event list"
  timeoutChecker :: bool
  broadcasted :: "event list"
  deliveries :: "(string \<times> event) list"
  closureCalls :: "(string \<times> closure) list"
  promises :: "string \<Rightarrow> promise"

definition maxHistorySize :: nat where
  "maxHistorySize = 100"

record retry_config =
  maxAttempts :: nat
  baseDelayMs :: real
  maxDelayMs :: real

definition RETRY_CONFIG :: retry_config where
  "RETRY_CONFIG = \<lparr>maxAttempts = 3, baseDelayMs = 1000, maxDelayMs = 10000\<rparr>"

text \<open>The router of the constructor: nothing pending, the sweep timer set.\<close>

definition new_router :: router where
  "new_router = \<lparr>pendingMessages = [], messageHistory = [], timeoutChecker = True,
      broadcasted = [], deliveries = [], closureCalls = [],
      promises = (\<lambda>_. Unassigned)\<rparr>"

section \<open>AgentMessageRouter: helpers, closures and retry\<close>

text \<open>JavaScript truthiness of an optional string: present and not empty.\<close>

definition truthy :: "string option \<Rightarrow> bool" where
  "truthy v = (case v of None \<Rightarrow> False | Some x \<Rightarrow> x \<noteq> [])"

definition addToHistory :: "event \<Rightarrow> router \<Rightarrow> router" where
  "addToHistory ev s =
     (let h = messageHistory s @ [ev]
      in s\<lparr>messageHistory := (if length h > maxHistorySize then tl h else h)\<rparr>)"

definition broadcastEvent :: "event \<Rightarrow> router \<Rightarrow> router" where
  "broadcastEvent ev s = s\<lparr>broadcasted := broadcasted s @ [ev]\<rparr>"

text \<open>
  Calling the stored resolver: nothing happens while the variable is undefined
  (\<^verbatim>\<open>if (pendingPromiseResolve)\<close>), and resolving a fulfilled promise again has no effect.
\<close>

definition promise_resolve :: "string \<Rightarrow> SendAgentMessageResponse \<Rightarrow> router \<Rightarrow> router" where
  "promise_resolve mid v s =
     (case promises s mid of
        Waiting \<Rightarrow> s\<lparr>promises := (promises s)(mid := Fulfilled v)\<rparr>
      | _ \<Rightarrow> s)"

text \<open>
  The resolve closure sets \<^verbatim>\<open>responseReceived\<close> on its pending object, deletes the entry
  of its message id and calls the stored resolver; the reject closure deletes the entry
  and calls the stored resolver with a failure result built from the error message.
\<close>

definition mark_received :: "string \<Rightarrow> (string \<times> PendingMessage) list \<Rightarrow> (string \<times> PendingMessage) list" where
  "mark_received mid m =
     map (\<lambda>kv. if fst kv = mid then (fst kv, (snd kv)\<lparr>p_responseReceived := True\<rparr>) else kv) m"

definition pending_resolve :: "PendingMessage \<Rightarrow> SendAgentMessageResponse \<Rightarrow> router \<Rightarrow> router" where
  "pending_resolve p v s =
     (let mid = p_messageId p;
          s1 = s\<lparr>pendingMessages := mark_received mid (pendingMessages s)\<rparr>;
          s2 = s1\<lparr>pendingMessages := Map_delete (pendingMessages s1) mid,
                  closureCalls := closureCalls s1 @ [(mid, resolve_closure)]\<rparr>
      in promise_resolve mid v s2)"

definition pending_reject :: "PendingMessage \<Rightarrow> string \<Rightarrow> router \<Rightarrow> router" where
  "pending_reject p error_message s =
     (let mid = p_messageId p;
          s1 = s\<lparr>pendingMessages := Map_delete (pendingMessages s) mid,
                 closureCalls := closureCalls s @ [(mid, reject_closure)]\<rparr>
      in promise_resolve mid
           ((result_of False)\<lparr>messageId := Some mid, targetAgentId := Some (p_toAgentId p),
                               error := Some error_message\<rparr>) s1)"

text \<open>
  The delivery callback is external and may fail. For one retry chain it is given by
  the settlement of its \<open>attempt\<close>-th call: \<open>None\<close> when the returned promise is
  fulfilled, \<open>Some e\<close> when it is rejected with \<open>e\<close>. \<open>rnd attempt\<close> is the value of
  \<^verbatim>\<open>Math.random()\<close> drawn after that attempt failed. The result of a chain is the
  settlement of \<^verbatim>\<open>deliverWithRetry\<close>, the number of callback calls made and the
  delays waited between them, in milliseconds, as the doubles the code computes.
  Attempts count from 1.
\<close>

type_synonym MessageDeliveryCallback = "string \<Rightarrow> event \<Rightarrow> nat \<Rightarrow> thrown option"

type_synonym retry_result = "thrown option \<times> nat \<times> real list"

text \<open>
  JavaScript numbers are IEEE 754 doubles: the result of a multiplication or an addition
  is the exact result rounded to the nearest double, ties to the even significand.
  \<open>to_double\<close> is this rounding on the reals: \<open>binade x\<close> is the exponent of \<open>x\<close>
  (that of the smallest normal number for a subnormal \<open>x\<close>), \<open>ulp x\<close> the distance
  between neighbouring doubles there (significands have 53 bits), and \<open>round_even\<close>
  rounds the scaled value to the nearest integer, ties to even. Overflow to infinity
  starts at 2^1024, far above every number of the router, and is left out.
  \<^verbatim>\<open>Math.pow(2, n)\<close> for a small integer \<open>n\<close> and \<^verbatim>\<open>Math.min\<close> are exact.
\<close>

definition round_even :: "real \<Rightarrow> int" where
  "round_even m =
     (let f = \<lfloor>m\<rfloor>
      in if m - of_int f < 1 / 2 then f
         else if m - of_int f > 1 / 2 then f + 1
         else if even f then f else f + 1)"

definition binade :: "real \<Rightarrow> int" where
  "binade x = max \<lfloor>log 2 \<bar>x\<bar>\<rfloor> (- 1022)"

definition ulp :: "real \<Rightarrow> real" where
  "ulp x = 2 powr of_int (binade x - 52)"

definition to_double :: "real \<Rightarrow> real" where
  "to_double x = of_int (round_even (x / ulp x)) * ulp x"

definition retry_delay :: "nat \<Rightarrow> real \<Rightarrow> real" where
  "retry_delay attempt random =
     min (to_double (to_double (baseDelayMs RETRY_CONFIG * 2 ^ (attempt - 1))
            + to_double (random * 1000)))
         (maxDelayMs RETRY_CONFIG)"

function deliverWithRetry ::
    "MessageDeliveryCallback \<Rightarrow> (nat \<Rightarrow> real) \<Rightarrow> string \<Rightarrow> event \<Rightarrow> nat \<Rightarrow> retry_result" where
  "deliverWithRetry deliverMessage rnd aid msg attempt =
     (case deliverMessage aid msg attempt of
        None \<Rightarrow> (None, 1, [])
      | Some err \<Rightarrow>
          if attempt \<ge> maxAttempts RETRY_CONFIG then (Some err, 1, [])
          else (let delay = retry_delay attempt (rnd attempt);
                    rest = deliverWithRetry deliverMessage rnd aid msg (attempt + 1)
                in (fst rest, fst (snd rest) + 1, delay # snd (snd rest))))"
  by pat_completeness auto
termination
  by (relation "measure (\<lambda>(d, r, a, m, attempt). maxAttempts RETRY_CONFIG - attempt)") auto

declare deliverWithRetry.simps [simp del]

definition thrown_message :: "thrown \<Rightarrow> string" where
  "thrown_message e = (case e of Error m \<Rightarrow> m | NonError \<Rightarrow> ''Delivery failed'')"

definition log_deliveries :: "string \<Rightarrow> event \<Rightarrow> retry_result \<Rightarrow> router \<Rightarrow> router" where
  "log_deliveries aid msg res s =
     s\<lparr>deliveries := deliveries s @ replicate (fst (snd res)) (aid, msg)\<rparr>"

definition newline :: string where
  "newline = [CHR 0x0A]"

definition rule_line :: string where
  "rule_line = replicate 80 (CHR ''='')"

definition formatResponseForDelivery ::
    "string \<Rightarrow> string \<Rightarrow> string \<Rightarrow> bool \<Rightarrow> string option \<Rightarrow> string" where
  "formatResponseForDelivery resp fromAgentName mid success err =
     (if \<not> success then
        ''[VIBECRAFT RESPONSE - ERROR]'' @ newline @ rule_line @ newline
        @ ''From: '' @ fromAgentName @ newline
        @ ''In Response To: Message '' @ take 8 mid @ newline
        @ ''Status: FAILED'' @ newline
        @ ''Error: '' @ (case err of None \<Rightarrow> ''Unknown error'' | Some e \<Rightarrow> e) @ newline
        @ rule_line @ newline @ newline @ resp @ newline @ newline
        @ rule_line @ newline @ ''[END RESPONSE]''
      else
        ''[VIBECRAFT RESPONSE]'' @ newline @ rule_line @ newline
        @ ''From: '' @ fromAgentName @ newline
        @ ''In Response To: Message '' @ take 8 mid @ newline
        @ ''Status: SUCCESS'' @ newline
        @ rule_line @ newline @ newline @ resp @ newline @ newline
        @ rule_line @ newline @ ''[END RESPONSE]'')"

section \<open>AgentMessageRouter: sendMessage\<close>

text \<open>
  \<^verbatim>\<open>sendMessage\<close> is an async function with one suspension point, the await of
  \<^verbatim>\<open>deliverWithRetry\<close>. \<open>sendMessage_begin\<close> is the code before it and
  \<open>sendMessage_resume\<close> the code after it; other router calls may run in between.
  \<open>now\<close> is the clock, \<open>mid\<close> and \<open>eid\<close> are the two values drawn from
  \<^verbatim>\<open>randomUUID\<close> (the message id and the event id). The clock reads of one
  half are given the same value. The calls of the delivery callback are recorded when
  the retry chain settles, in \<open>sendMessage_resume\<close>.
\<close>

record send_call =
  call_messageId :: string
  call_targetAgentId :: string
  call_targetAgent :: "AgentRegistryEntry option"
  call_messageEvent :: AgentMessageEvent
  call_expectsResponse :: bool

text \<open>
  How far a \<^verbatim>\<open>sendMessage\<close> call got: it returned a value, it returned the promise
  whose resolver cell is named, it threw a \<^verbatim>\<open>TypeError\<close>, or it is suspended at the
  delivery.
\<close>

datatype send_step =
    Returned SendAgentMessageResponse
  | AwaitingResponse string
  | ThrewTypeError
  | AwaitingDelivery send_call

definition resolve_target ::
    "registry \<Rightarrow> string \<Rightarrow> SendAgentMessageRequest \<Rightarrow> string + (AgentMessageRouting \<times> string)" where
  "resolve_target reg fromAgentId request =
     (if truthy (toAgentId request) then
        (let target_id = the (toAgentId request)
         in case get reg target_id of
              None \<Rightarrow> Inl (''Target agent not found: '' @ target_id)
            | Some targetAgent \<Rightarrow>
                if \<not> acceptsMessages targetAgent
                then Inl (''Target agent does not accept messages: '' @ target_id)
                else if status targetAgent = offline
                then Inl (''Target agent is offline: '' @ target_id)
                else Inr (direct, target_id))
      else if truthy (toCapability request) then
        (case findBestForCapability (the (toCapability request)) (Some fromAgentId) reg of
           None \<Rightarrow> Inl (''No agent found with capability: '' @ the (toCapability request))
         | Some bestAgent \<Rightarrow> Inr (capability, agentId bestAgent))
      else Inl ''Must specify either toAgentId or toCapability'')"

definition type_error_message :: string where
  "type_error_message =
     ''Cannot read properties of undefined (reading '' @ [CHR 0x27] @ ''name'' @ [CHR 0x27] @ '')''"

definition sendMessage_begin ::
    "registry \<Rightarrow> int \<Rightarrow> string \<Rightarrow> string \<Rightarrow> string \<Rightarrow> SendAgentMessageRequest \<Rightarrow> router
      \<Rightarrow> send_step \<times> router" where
  "sendMessage_begin reg now mid eid fromAgentId request s =
     (case get reg fromAgentId of
        None \<Rightarrow> (Returned ((result_of False)\<lparr>error := Some ''Sender agent not found in registry''\<rparr>), s)
      | Some fromAgent \<Rightarrow>
          (case resolve_target reg fromAgentId request of
             Inl err \<Rightarrow> (Returned ((result_of False)\<lparr>error := Some err\<rparr>), s)
           | Inr (routing, target_id) \<Rightarrow>
               (let targetAgent = get reg target_id;
                    timeout = (case responseTimeout request of None \<Rightarrow> 300000 | Some t \<Rightarrow> t);
                    messageEvent = \<lparr>m_id = eid, m_timestamp = now, m_sessionId = fromAgentId,
                      m_cwd = (case cwd fromAgent of None \<Rightarrow> [] | Some c \<Rightarrow> c),
                      m_fromAgentId = fromAgentId, m_fromAgentName = name fromAgent,
                      m_toAgentId = Some target_id, m_toCapability = toCapability request,
                      m_routing = routing, m_message = message request,
                      m_context = context_data request,
                      m_priority = (case priority request of None \<Rightarrow> normal | Some p \<Rightarrow> p),
                      m_messageId = mid,
                      m_expectsResponse = (case expectsResponse request of None \<Rightarrow> False | Some b \<Rightarrow> b),
                      m_responseTimeout = Some timeout\<rparr>;
                    s1 = broadcastEvent (agent_message messageEvent)
                           (addToHistory (agent_message messageEvent) s);
                    call = \<lparr>call_messageId = mid, call_targetAgentId = target_id,
                      call_targetAgent = targetAgent, call_messageEvent = messageEvent,
                      call_expectsResponse = (expectsResponse request = Some True)\<rparr>
                in if expectsResponse request = Some True then
                     (case targetAgent of
                        None \<Rightarrow> (ThrewTypeError, s1)
                      | Some ta \<Rightarrow>
                          (let pending = \<lparr>p_messageId = mid, p_fromAgentId = fromAgentId,
                                 p_fromAgentName = name fromAgent, p_toAgentId = target_id,
                                 p_toAgentName = name ta, p_sentAt = now, p_timeout = timeout,
                                 p_originalMessage = message request, p_deliveryAttempts = 1,
                                 p_responseReceived = False\<rparr>
                           in (AwaitingDelivery call,
                               s1\<lparr>pendingMessages := Map_set (pendingMessages s1) mid pending\<rparr>)))
                   else (AwaitingDelivery call, s1))))"

text \<open>
  The code after the await, for the settlement \<open>res\<close> of the retry chain. The promise
  executor stores the resolver and then only reads the pending map; the value it reads
  is not used.
\<close>

definition delivery_failed :: "send_call \<Rightarrow> string \<Rightarrow> router \<Rightarrow> send_step \<times> router" where
  "delivery_failed call msg s =
     (Returned ((result_of False)\<lparr>messageId := Some (call_messageId call), error := Some msg\<rparr>),
      s\<lparr>pendingMessages := Map_delete (pendingMessages s) (call_messageId call)\<rparr>)"

definition sendMessage_resume :: "send_call \<Rightarrow> retry_result \<Rightarrow> router \<Rightarrow> send_step \<times> router" where
  "sendMessage_resume call res s =
     (let s1 = log_deliveries (call_targetAgentId call) (agent_message (call_messageEvent call)) res s
      in case fst res of
           None \<Rightarrow>
             (case call_targetAgent call of
                None \<Rightarrow> delivery_failed call type_error_message s1
              | Some ta \<Rightarrow>
                  if \<not> call_expectsResponse call then
                    (Returned ((result_of True)\<lparr>messageId := Some (call_messageId call),
                        targetAgentId := Some (call_targetAgentId call)\<rparr>), s1)
                  else
                    (AwaitingResponse (call_messageId call),
                     s1\<lparr>promises := (promises s1)(call_messageId call := Waiting)\<rparr>))
         | Some err \<Rightarrow> delivery_failed call (thrown_message err) s1)"

text \<open>A call during whose delivery no other router call runs.\<close>

definition sendMessage ::
    "MessageDeliveryCallback \<Rightarrow> (nat \<Rightarrow> real) \<Rightarrow> registry \<Rightarrow> int \<Rightarrow> string \<Rightarrow> string \<Rightarrow> string
      \<Rightarrow> SendAgentMessageRequest \<Rightarrow> router \<Rightarrow> send_step \<times> router" where
  "sendMessage deliverMessage rnd reg now mid eid fromAgentId request s =
     (case sendMessage_begin reg now mid eid fromAgentId request s of
        (AwaitingDelivery call, s1) \<Rightarrow>
          sendMessage_resume call
            (deliverWithRetry deliverMessage rnd (call_targetAgentId call)
               (agent_message (call_messageEvent call)) 1) s1
      | other \<Rightarrow> other)"

section \<open>AgentMessageRouter: handleResponse\<close>

text \<open>
  \<^verbatim>\<open>handleResponse\<close> has one suspension point as well, the await of the delivery of the
  response to the original sender. The local \<^verbatim>\<open>pending\<close> read before it is used after
  it, whatever happened to the map in between. \<open>eid\<close> and \<open>did\<close> are the ids drawn
  for the response event and for the delivery message; the second half reads the clock
  again for \<^verbatim>\<open>responseReceivedAt\<close>.
\<close>

record response_call =
  rc_pending :: PendingMessage
  rc_messageId :: string
  rc_deliveryMessage :: AgentMessageEvent
  rc_response :: string
  rc_success :: bool
  rc_error :: "string option"
  rc_data :: "json option"

datatype response_step =
    Responded HandleResponseResult
  | AwaitingResponseDelivery response_call

definition opt_json :: "json option \<Rightarrow> json" where
  "opt_json v = (case v of None \<Rightarrow> JUndefined | Some j \<Rightarrow> j)"

definition opt_string :: "string option \<Rightarrow> json" where
  "opt_string v = (case v of None \<Rightarrow> JUndefined | Some x \<Rightarrow> JStr x)"

text \<open>The response event built when no pending message is found.\<close>

definition no_pending_event ::
    "int \<Rightarrow> string \<Rightarrow> string \<Rightarrow> AgentRegistryEntry \<Rightarrow> string \<Rightarrow> string \<Rightarrow> bool \<Rightarrow> string option
      \<Rightarrow> json option \<Rightarrow> event" where
  "no_pending_event now eid fromAgentId fa mid resp success err dat =
     agent_message_response \<lparr>r_id = eid, r_timestamp = now, r_sessionId = fromAgentId,
       r_cwd = (case cwd fa of None \<Rightarrow> [] | Some c \<Rightarrow> c),
       r_fromAgentId = fromAgentId, r_fromAgentName = name fa,
       r_toAgentId = [], r_inResponseTo = mid, r_response = resp,
       r_data = dat, r_success = success, r_error = err\<rparr>"

definition handleResponse_begin ::
    "registry \<Rightarrow> int \<Rightarrow> string \<Rightarrow> string \<Rightarrow> string \<Rightarrow> string \<Rightarrow> string \<Rightarrow> bool
      \<Rightarrow> string option \<Rightarrow> json option \<Rightarrow> router \<Rightarrow> response_step \<times> router" where
  "handleResponse_begin reg now eid did fromAgentId mid resp success err dat s =
     (let pending = Map_get (pendingMessages s) mid;
          fromAgent = get reg fromAgentId
      in case fromAgent of
           None \<Rightarrow>
             (Responded \<lparr>delivered = False,
                 h_error = Some ''Responding agent not found in registry''\<rparr>, s)
         | Some fa \<Rightarrow>
             (case pending of
                None \<Rightarrow>
                  (let responseEvent =
                         no_pending_event now eid fromAgentId fa mid resp success err dat
                   in (Responded \<lparr>delivered = False,
                          h_error = Some ''No pending message found (may have timed out)''\<rparr>,
                       broadcastEvent responseEvent (addToHistory responseEvent s)))
              | Some p \<Rightarrow>
                  (case get reg (p_fromAgentId p) of
                     None \<Rightarrow>
                       (Responded \<lparr>delivered = False,
                           h_error = Some ''Original sender no longer available''\<rparr>,
                        pending_reject p ''Original sender no longer available'' s)
                   | Some originalSender \<Rightarrow>
                       (let sender_cwd = (case cwd originalSender of None \<Rightarrow> [] | Some c \<Rightarrow> c);
                            responseEvent = \<lparr>r_id = eid, r_timestamp = now,
                              r_sessionId = p_fromAgentId p, r_cwd = sender_cwd,
                              r_fromAgentId = fromAgentId, r_fromAgentName = name fa,
                              r_toAgentId = p_fromAgentId p, r_inResponseTo = mid,
                              r_response = resp, r_data = dat, r_success = success,
                              r_error = err\<rparr>;
                            s1 = broadcastEvent (agent_message_response responseEvent)
                                   (addToHistory (agent_message_response responseEvent) s);
                            responseDeliveryMessage = \<lparr>m_id = did, m_timestamp = now,
                              m_sessionId = p_fromAgentId p, m_cwd = sender_cwd,
                              m_fromAgentId = fromAgentId, m_fromAgentName = name fa,
                              m_toAgentId = Some (p_fromAgentId p), m_toCapability = None,
                              m_routing = direct,
                              m_message = formatResponseForDelivery resp (name fa) mid success err,
                              m_context = Some (JObj [(''isResponse'', JBool True),
                                 (''inResponseTo'', JStr mid),
                                 (''originalMessage'', JStr (p_originalMessage p)),
                                 (''responseData'', opt_json dat),
                                 (''success'', JBool success),
                                 (''error'', opt_string err)]),
                              m_priority = high, m_messageId = mid, m_expectsResponse = False,
                              m_responseTimeout = None\<rparr>
                        in (AwaitingResponseDelivery
                              \<lparr>rc_pending = p, rc_messageId = mid,
                               rc_deliveryMessage = responseDeliveryMessage, rc_response = resp,
                               rc_success = success, rc_error = err, rc_data = dat\<rparr>, s1)))))"

definition handleResponse_resume ::
    "response_call \<Rightarrow> retry_result \<Rightarrow> int \<Rightarrow> router \<Rightarrow> HandleResponseResult \<times> router" where
  "handleResponse_resume rc res now s =
     (let p = rc_pending rc;
          s1 = log_deliveries (p_fromAgentId p) (agent_message (rc_deliveryMessage rc)) res s
      in case fst res of
           None \<Rightarrow>
             (\<lparr>delivered = True, h_error = None\<rparr>,
              pending_resolve p
                \<lparr>ok = True, messageId = Some (rc_messageId rc),
                 targetAgentId = Some (p_toAgentId p), error = rc_error rc,
                 response = Some (rc_response rc), responseData = rc_data rc,
                 responseSuccess = Some (rc_success rc), responseReceivedAt = Some now\<rparr> s1)
         | Some deliveryError \<Rightarrow>
             (let errMsg = thrown_message deliveryError
              in (\<lparr>delivered = False, h_error = Some errMsg\<rparr>,
                  pending_resolve p
                    \<lparr>ok = False, messageId = Some (rc_messageId rc),
                     targetAgentId = Some (p_toAgentId p),
                     error = Some (''Response received but delivery failed: '' @ errMsg),
                     response = Some (rc_response rc), responseData = rc_data rc,
                     responseSuccess = Some (rc_success rc), responseReceivedAt = None\<rparr> s1)))"

text \<open>
  A call during whose delivery no other router call runs; its second clock read is
  given the value of the first.
\<close>

definition handleResponse ::
    "MessageDeliveryCallback \<Rightarrow> (nat \<Rightarrow> real) \<Rightarrow> registry \<Rightarrow> int \<Rightarrow> string \<Rightarrow> string \<Rightarrow> string
      \<Rightarrow> string \<Rightarrow> string \<Rightarrow> bool \<Rightarrow> string option \<Rightarrow> json option \<Rightarrow> router
      \<Rightarrow> HandleResponseResult \<times> router" where
  "handleResponse deliverMessage rnd reg now eid did fromAgentId mid resp success err dat s =
     (case handleResponse_begin reg now eid did fromAgentId mid resp success err dat s of
        (Responded r, s1) \<Rightarrow> (r, s1)
      | (AwaitingResponseDelivery rc, s1) \<Rightarrow>
          handleResponse_resume rc
            (deliverWithRetry deliverMessage rnd (p_fromAgentId (rc_pending rc))
               (agent_message (rc_deliveryMessage rc)) 1) now s1)"

section \<open>AgentMessageRouter: broadcast, timeout sweep, shutdown\<close>

text \<open>
  The deliveries of a broadcast run in parallel, one retry chain per target; the two
  counters are updated as the chains settle, and their final values do not depend on
  the order. \<open>rnd\<close> gives each target its own random draws.
\<close>

definition broadcast_targets :: "registry \<Rightarrow> string \<Rightarrow> AgentRegistryEntry list" where
  "broadcast_targets reg fromAgentId =
     filter (\<lambda>a. agentId a \<noteq> fromAgentId \<and> status a \<noteq> offline) (getMessageableAgents reg)"

definition count_delivery :: "BroadcastResult \<Rightarrow> retry_result \<Rightarrow> BroadcastResult" where
  "count_delivery c res =
     (case fst res of None \<Rightarrow> c\<lparr>sent := sent c + 1\<rparr> | Some e \<Rightarrow> c\<lparr>failed := failed c + 1\<rparr>)"

definition make_broadcast ::
    "int \<Rightarrow> string \<Rightarrow> string \<Rightarrow> AgentRegistryEntry \<Rightarrow> string \<Rightarrow> string \<Rightarrow> json option
      \<Rightarrow> event" where
  "make_broadcast now eid fromAgentId fromAgent channel msg dat =
     agent_broadcast \<lparr>b_id = eid, b_timestamp = now, b_sessionId = fromAgentId,
       b_cwd = (case cwd fromAgent of None \<Rightarrow> [] | Some c \<Rightarrow> c),
       b_fromAgentId = fromAgentId, b_fromAgentName = name fromAgent,
       b_channel = channel, b_message = msg, b_data = dat\<rparr>"

definition broadcast ::
    "MessageDeliveryCallback \<Rightarrow> (string \<Rightarrow> nat \<Rightarrow> real) \<Rightarrow> registry \<Rightarrow> int \<Rightarrow> string \<Rightarrow> string
      \<Rightarrow> string \<Rightarrow> string \<Rightarrow> json option \<Rightarrow> router \<Rightarrow> BroadcastResult \<times> router" where
  "broadcast deliverMessage rnd reg now eid fromAgentId channel msg dat s =
     (case get reg fromAgentId of
        None \<Rightarrow> (\<lparr>sent = 0, failed = 0\<rparr>, s)
      | Some fromAgent \<Rightarrow>
          (let broadcastEv = make_broadcast now eid fromAgentId fromAgent channel msg dat;
               s1 = broadcastEvent broadcastEv (addToHistory broadcastEv s);
               targets = broadcast_targets reg fromAgentId;
               chs = map (\<lambda>target. (agentId target,
                          deliverWithRetry deliverMessage (rnd (agentId target)) (agentId target)
                            broadcastEv 1)) targets;
               s2 = foldl (\<lambda>st ch. log_deliveries (fst ch) broadcastEv (snd ch) st) s1 chs
           in (foldl count_delivery \<lparr>sent = 0, failed = 0\<rparr> (map snd chs), s2)))"

text \<open>
  The sweep iterates over the map and, for each entry that is overdue, calls its reject
  closure and then deletes the key. A closure deletes the entry of its own message id
  only, so the iteration visits the entries that were present when it started.
  \<open>seconds\<close> is JavaScript's rendering of the number \<^verbatim>\<open>pending.timeout / 1000\<close> in
  the error message.
\<close>

definition timeout_message :: "(int \<Rightarrow> string) \<Rightarrow> PendingMessage \<Rightarrow> string" where
  "timeout_message seconds p = ''Response timeout after '' @ seconds (p_timeout p) @ '' seconds''"

definition sweep_entry :: "(int \<Rightarrow> string) \<Rightarrow> int \<Rightarrow> router \<Rightarrow> string \<times> PendingMessage \<Rightarrow> router" where
  "sweep_entry seconds now s kv =
     (if now - p_sentAt (snd kv) > p_timeout (snd kv) then
        (let s1 = pending_reject (snd kv) (timeout_message seconds (snd kv)) s
         in s1\<lparr>pendingMessages := Map_delete (pendingMessages s1) (fst kv)\<rparr>)
      else s)"

definition checkTimeouts :: "(int \<Rightarrow> string) \<Rightarrow> int \<Rightarrow> router \<Rightarrow> router" where
  "checkTimeouts seconds now s = foldl (sweep_entry seconds now) s (pendingMessages s)"

definition clearPending :: "router \<Rightarrow> router" where
  "clearPending s =
     (foldl (\<lambda>st kv. pending_reject (snd kv) ''Router cleared'' st) s (pendingMessages s))
       \<lparr>pendingMessages := []\<rparr>"

definition destroy :: "router \<Rightarrow> router" where
  "destroy s = clearPending (if timeoutChecker s then s\<lparr>timeoutChecker := False\<rparr> else s)"

definition getHistory :: "router \<Rightarrow> event list" where
  "getHistory s = messageHistory s"

definition getPendingCount :: "router \<Rightarrow> nat" where
  "getPendingCount s = length (pendingMessages s)"

section \<open>Router calls as steps\<close>

text \<open>
  Every piece of router code that runs without suspension, as one step on the router
  state. The two halves of \<^verbatim>\<open>sendMessage\<close> and of \<^verbatim>\<open>handleResponse\<close> are separate
  steps, so that a sequence of steps is an interleaving of calls.
\<close>

datatype router_op =
    op_sendMessage_begin registry int string string string SendAgentMessageRequest
  | op_sendMessage_resume send_call retry_result
  | op_handleResponse_begin registry int string string string string string bool
      "string option" "json option"
  | op_handleResponse_resume response_call retry_result int
  | op_broadcast MessageDeliveryCallback "string \<Rightarrow> nat \<Rightarrow> real" registry int string string
      string string "json option"
  | op_checkTimeouts "int \<Rightarrow> string" int
  | op_clearPending
  | op_destroy

fun step :: "router_op \<Rightarrow> router \<Rightarrow> router" where
  "step (op_sendMessage_begin reg now mid eid fromAgentId request) s =
     snd (sendMessage_begin reg now mid eid fromAgentId request s)"
| "step (op_sendMessage_resume call res) s = snd (sendMessage_resume call res s)"
| "step (op_handleResponse_begin reg now eid did fromAgentId mid resp success err dat) s =
     snd (handleResponse_begin reg now eid did fromAgentId mid resp success err dat s)"
| "step (op_handleResponse_resume rc res now) s = snd (handleResponse_resume rc res now s)"
| "step (op_broadcast deliverMessage rnd reg now eid fromAgentId channel msg dat) s =
     snd (broadcast deliverMessage rnd reg now eid fromAgentId channel msg dat s)"
| "step (op_checkTimeouts seconds now) s = checkTimeouts seconds now s"
| "step op_clearPending s = clearPending s"
| "step op_destroy s = destroy s"

text \<open>
  Every entry of the pending map is stored under its own message id
  (\<^verbatim>\<open>this.pendingMessages.set(messageId, pending)\<close> is the only insertion).
\<close>

definition keyed_by_id :: "(string \<times> PendingMessage) list \<Rightarrow> bool" where
  "keyed_by_id m = list_all (\<lambda>kv. p_messageId (snd kv) = fst kv) m"

text \<open>The closure invocations made between an earlier and a later state.\<close>

definition calls_since :: "router \<Rightarrow> router \<Rightarrow> (string \<times> closure) list" where
  "calls_since s s' = drop (length (closureCalls s)) (closureCalls s')"

text \<open>A failed delivery of the \<^verbatim>\<open>sendMessage\<close> call that drew the message id.\<close>

fun failed_delivery_of :: "string \<Rightarrow> router_op \<Rightarrow> bool" where
  "failed_delivery_of mid (op_sendMessage_resume call res) =
     (call_messageId call = mid \<and> (fst res \<noteq> None \<or> call_targetAgent call = None))"
| "failed_delivery_of mid other = False"

fun draws_id :: "string \<Rightarrow> router_op \<Rightarrow> bool" where
  "draws_id mid (op_sendMessage_begin reg now mid' eid fromAgentId request) = (mid' = mid)"
| "draws_id mid other = False"

section \<open>Example data\<close>

definition agent_of :: "string \<Rightarrow> string \<Rightarrow> SessionStatus \<Rightarrow> int \<Rightarrow> bool \<Rightarrow> AgentRegistryEntry" where
  "agent_of aid nm st t acc =
     \<lparr>agentId = aid, name = nm, capabilities = [''general'', ''testing''], status = st,
      backend = sdk, cwd = None, lastActivity = t, acceptsMessages = acc, metadata = None\<rparr>"

definition ex_registry :: registry where
  "ex_registry = \<lparr>agents = [
       (''A'', agent_of ''A'' ''alpha'' idle 5 True),
       (''B'', agent_of ''B'' ''beta'' working 10 True),
       (''C'', agent_of ''C'' ''gamma'' idle 8 True)],
     changeCallbacks = [0], notifications = []\<rparr>"

definition ex_registry5 :: registry where
  "ex_registry5 = \<lparr>agents = [
       (''S'', agent_of ''S'' ''sender'' idle 1 True),
       (''B'', agent_of ''B'' ''beta'' working 10 True),
       (''C'', agent_of ''C'' ''gamma'' idle 8 True),
       (''D'', agent_of ''D'' ''delta'' waiting 3 True),
       (''E'', agent_of ''E'' ''eps'' offline 4 True),
       (''F'', agent_of ''F'' ''phi'' idle 6 False)],
     changeCallbacks = [], notifications = []\<rparr>"

definition ex_session :: ManagedSession where
  "ex_session = \<lparr>session_id = ''s1'', session_name = ''React API Tests'',
     session_backend = sdk, session_status = idle, session_lastActivity = 0,
     session_cwd = None\<rparr>"

definition ex_request :: "int \<Rightarrow> SendAgentMessageRequest" where
  "ex_request t = \<lparr>toAgentId = Some ''B'', toCapability = None, message = ''run suite'',
     context_data = None, priority = None, expectsResponse = Some True,
     responseTimeout = Some t\<rparr>"

definition always_fails :: MessageDeliveryCallback where
  "always_fails aid msg attempt = Some (Error ''unreachable'')"

definition fails_for :: "string \<Rightarrow> MessageDeliveryCallback" where
  "fails_for bad aid msg attempt = (if aid = bad then Some (Error ''unreachable'') else None)"

definition always_delivers :: MessageDeliveryCallback where
  "always_delivers aid msg attempt = None"

text \<open>
  The states of two interleavings of a \<^verbatim>\<open>sendMessage\<close> call from A to B that expects
  a response. In the first, the response of B is handled completely while the delivery
  to B is still awaited. In the second, the request has a timeout of 100 ms and the
  sweep runs while the delivery is still awaited.
\<close>

definition early_sent :: "send_step \<times> router" where
  "early_sent = sendMessage_begin ex_registry 1000 ''m-1'' ''e-1'' ''A'' (ex_request 5000) new_router"

definition early_responding :: "response_step \<times> router" where
  "early_responding =
     handleResponse_begin ex_registry 1200 ''e-2'' ''d-2'' ''B'' ''m-1'' ''42 passed'' True None None
       (snd early_sent)"

definition early_responded :: "HandleResponseResult \<times> router" where
  "early_responded =
     (case fst early_responding of
        AwaitingResponseDelivery rc \<Rightarrow> handleResponse_resume rc (None, 1, []) 1300 (snd early_responding)
      | Responded r \<Rightarrow> (r, snd early_responding))"

definition early_final :: "send_step \<times> router" where
  "early_final =
     (case fst early_sent of
        AwaitingDelivery call \<Rightarrow> sendMessage_resume call (None, 1, []) (snd early_responded)
      | other \<Rightarrow> (other, snd early_responded))"

definition sweep_sent :: "send_step \<times> router" where
  "sweep_sent = sendMessage_begin ex_registry 1000 ''m-1'' ''e-1'' ''A'' (ex_request 100) new_router"

definition sweep_swept :: router where
  "sweep_swept = checkTimeouts (\<lambda>t. ''0.1'') 6000 (snd sweep_sent)"

definition sweep_final :: "send_step \<times> router" where
  "sweep_final =
     (case fst sweep_sent of
        AwaitingDelivery call \<Rightarrow> sendMessage_resume call (None, 2, [1500]) sweep_swept
      | other \<Rightarrow> (other, sweep_swept))"

definition ex_event :: event where
  "ex_event = agent_broadcast \<lparr>b_id = ''e-0'', b_timestamp = 900, b_sessionId = ''S'',
     b_cwd = [], b_fromAgentId = ''S'', b_fromAgentName = ''sender'', b_channel = ''general'',
     b_message = ''status?'', b_data = Some (JObj [])\<rparr>"

definition ex_empty_target :: SendAgentMessageRequest where
  "ex_empty_target = \<lparr>toAgentId = Some [], toCapability = None, message = ''hello'',
     context_data = None, priority = None, expectsResponse = None, responseTimeout = None\<rparr>"

definition ex_to :: "string \<Rightarrow> SendAgentMessageRequest" where
  "ex_to aid = \<lparr>toAgentId = Some aid, toCapability = None, message = ''hello'',
     context_data = None, priority = None, expectsResponse = None, responseTimeout = None\<rparr>"

definition ex_to_capability :: "string option \<Rightarrow> SendAgentMessageRequest" where
  "ex_to_capability c = \<lparr>toAgentId = None, toCapability = c, message = ''hello'',
     context_data = None, priority = None, expectsResponse = None, responseTimeout = None\<rparr>"

definition failure :: "string \<Rightarrow> SendAgentMessageResponse" where
  "failure e = (result_of False)\<lparr>error := Some e\<rparr>"

definition early_call :: send_call where
  "early_call = \<lparr>call_messageId = ''m-1'', call_targetAgentId = ''B'',
     call_targetAgent = Some (agent_of ''B'' ''beta'' working 10 True),
     call_messageEvent = \<lparr>m_id = ''e-1'', m_timestamp = 1000, m_sessionId = ''A'', m_cwd = [],
       m_fromAgentId = ''A'', m_fromAgentName = ''alpha'', m_toAgentId = Some ''B'',
       m_toCapability = None, m_routing = direct, m_message = ''run suite'',
       m_context = None, m_priority = normal, m_messageId = ''m-1'',
       m_expectsResponse = True, m_responseTimeout = Some 5000\<rparr>,
     call_expectsResponse = True\<rparr>"

text \<open>
  The second half of a \<^verbatim>\<open>handleResponse\<close> call that still holds the pending message
  of the given id.
\<close>

fun holds_pending_of :: "string \<Rightarrow> router_op \<Rightarrow> bool" where
  "holds_pending_of mid (op_handleResponse_resume rc res now) = (p_messageId (rc_pending rc) = mid)"
| "holds_pending_of mid other = False"

definition run :: "router_op list \<Rightarrow> router \<Rightarrow> router" where
  "run ops s = foldl (\<lambda>st op. step op st) s ops"

section \<open>Properties of the containers\<close>

lemma Map_get_Map_set: "Map_get (Map_set m k v) k' = (if k' = k then Some v else Map_get m k')"
  by (induction m) (auto simp: Map_get_def)

lemma Map_delete_absent: "Map_get m k = None \<Longrightarrow> Map_delete m k = m"
  unfolding Map_get_def Map_delete_def
  by (induction m) (auto split: if_splits)

lemma Map_get_Map_delete: "Map_get (Map_delete m k) k' = (if k' = k then None else Map_get m k')"
  unfolding Map_get_def Map_delete_def
  by (induction m) auto

lemma Map_has_iff: "Map_has m k \<longleftrightarrow> k \<in> fst ` set m"
  unfolding Map_has_def Map_get_def by (simp add: map_of_eq_None_iff)

lemma set_Set_spread: "set (Set_spread xs) = set xs"
  by (induction xs rule: Set_spread.induct) auto

lemma distinct_Set_spread: "distinct (Set_spread xs)"
  by (induction xs rule: Set_spread.induct) (auto simp: set_Set_spread)

lemma String_includes_iff:
  "String_includes hay needle \<longleftrightarrow> (\<exists>pre post. hay = pre @ needle @ post)"
proof (induction hay)
  case Nil
  then show ?case by auto
next
  case (Cons c cs)
  show ?case
  proof
    assume "String_includes (c # cs) needle"
    then consider "prefix needle (c # cs)" | "String_includes cs needle" by auto
    then show "\<exists>pre post. c # cs = pre @ needle @ post"
    proof cases
      case 1
      then obtain post where "c # cs = needle @ post" by (auto simp: prefix_def)
      then have "c # cs = [] @ needle @ post" by simp
      then show ?thesis by blast
    next
      case 2
      with Cons.IH obtain pre post where "cs = pre @ needle @ post" by blast
      then have "c # cs = (c # pre) @ needle @ post" by simp
      then show ?thesis by blast
    qed
  next
    assume "\<exists>pre post. c # cs = pre @ needle @ post"
    then obtain pre post where e: "c # cs = pre @ needle @ post" by blast
    show "String_includes (c # cs) needle"
    proof (cases pre)
      case Nil
      with e have "prefix needle (c # cs)" by (simp add: prefix_def)
      then show ?thesis by simp
    next
      case (Cons p ps)
      with e have "cs = ps @ needle @ post" by simp
      with Cons.IH have "String_includes cs needle" by blast
      then show ?thesis by simp
    qed
  qed
qed

lemma includes_lower:
  "nm = pre @ w @ post \<Longrightarrow> toLowerCase w = kw \<Longrightarrow> String_includes (toLowerCase nm) kw"
  unfolding String_includes_iff toLowerCase_def by (metis map_append)

lemma set_insert_sorted: "set (insert_sorted cmp x ys) = insert x (set ys)"
  by (induction ys) auto

lemma Array_sort_Cons: "Array_sort cmp (x # xs) = insert_sorted cmp x (Array_sort cmp xs)"
  by (simp add: Array_sort_def)

lemma set_Array_sort: "set (Array_sort cmp xs) = set xs"
  by (induction xs) (auto simp: Array_sort_def set_insert_sorted)

lemma Array_sort_Nil_iff: "Array_sort cmp xs = [] \<longleftrightarrow> xs = []"
  using set_Array_sort [of cmp xs] by (metis set_empty)

section \<open>Properties of the registry\<close>

lemma compareFn_le_iff:
  "compareFn a b \<le> 0 \<longleftrightarrow>
     statusPriority (status a) < statusPriority (status b)
     \<or> (statusPriority (status a) = statusPriority (status b) \<and> lastActivity b \<le> lastActivity a)"
  by (auto simp: compareFn_def Let_def)

lemma head_least_insert:
  assumes "ys = b # rest" and "\<forall>c\<in>set ys. compareFn b c \<le> 0"
  shows "\<exists>b' rest'. insert_sorted compareFn x ys = b' # rest'
           \<and> (\<forall>c\<in>insert x (set ys). compareFn b' c \<le> 0)"
proof (cases "compareFn x b \<le> 0")
  case True
  have "compareFn x c \<le> 0" if "c \<in> set ys" for c
  proof -
    from assms that have "compareFn b c \<le> 0" by blast
    with True show ?thesis unfolding compareFn_le_iff by linarith
  qed
  moreover have "compareFn x x \<le> 0" by (simp add: compareFn_le_iff)
  ultimately show ?thesis using True assms(1) by auto
next
  case False
  then have "compareFn b x \<le> 0" unfolding compareFn_le_iff by linarith
  with False assms show ?thesis by auto
qed

lemma head_least_sort:
  "xs \<noteq> [] \<Longrightarrow> \<exists>b rest. Array_sort compareFn xs = b # rest \<and> (\<forall>c\<in>set xs. compareFn b c \<le> 0)"
proof (induction xs)
  case Nil
  then show ?case by simp
next
  case (Cons x xs)
  show ?case
  proof (cases xs)
    case Nil
    then show ?thesis by (simp add: Array_sort_def compareFn_le_iff)
  next
    case (Cons y ys)
    with Cons.IH obtain b rest where
      s: "Array_sort compareFn xs = b # rest" and m: "\<forall>c\<in>set xs. compareFn b c \<le> 0"
      by auto
    from m have "\<forall>c\<in>set (Array_sort compareFn xs). compareFn b c \<le> 0"
      by (simp add: set_Array_sort)
    from head_least_insert [OF s this, of x] show ?thesis
      by (simp add: Array_sort_Cons set_Array_sort)
  qed
qed

lemma findBest_example:
  "map_option agentId (findBestForCapability ''testing'' None ex_registry) = Some ''C''"
  by (simp add: findBestForCapability_def candidates_of_def findByCapability_def getAll_def
      Map_values_def ex_registry_def agent_of_def Array_sort_def compareFn_def)

text \<open>
  C5. \<^verbatim>\<open>findBestForCapability\<close> returns nothing exactly when no agent found by
  \<^verbatim>\<open>findByCapability\<close> is left after the excluded one is removed. Otherwise it returns
  one of these candidates, and compared with every candidate it has a smaller status
  priority (idle 0, working 1, waiting 2, offline 3), or the same priority and a
  \<^verbatim>\<open>lastActivity\<close> at least as high. For the agents A (idle, 5), B (working, 10) and
  C (idle, 8), all with the capability testing, the agent C is selected.
\<close>

theorem findBestForCapability_minimal:
  "(findBestForCapability cap ex r = None \<longleftrightarrow> candidates_of cap ex r = []) \<and>
   (\<forall>b. findBestForCapability cap ex r = Some b \<longrightarrow>
        b \<in> set (candidates_of cap ex r) \<and>
        (\<forall>c\<in>set (candidates_of cap ex r).
            statusPriority (status b) < statusPriority (status c)
          \<or> (statusPriority (status b) = statusPriority (status c)
              \<and> lastActivity c \<le> lastActivity b))) \<and>
   candidates_of cap ex r =
     filter (\<lambda>a. Some (agentId a) \<noteq> ex) (findByCapability cap r) \<and>
   map statusPriority [idle, working, waiting, offline] = [0, 1, 2, 3] \<and>
   map_option agentId (findBestForCapability ''testing'' None ex_registry) = Some ''C''"
proof -
  let ?cs = "candidates_of cap ex r"
  have none: "findBestForCapability cap ex r = None \<longleftrightarrow> ?cs = []"
    using Array_sort_Nil_iff [of compareFn ?cs]
    by (auto simp: findBestForCapability_def Let_def split: list.splits)
  have some: "b \<in> set ?cs \<and> (\<forall>c\<in>set ?cs. compareFn b c \<le> 0)"
    if "findBestForCapability cap ex r = Some b" for b
  proof -
    from that none have ne: "?cs \<noteq> []" by auto
    from head_least_sort [OF ne] obtain b' rest where
      s: "Array_sort compareFn ?cs = b' # rest" and m: "\<forall>c\<in>set ?cs. compareFn b' c \<le> 0"
      by blast
    from that s ne have "b' = b" by (simp add: findBestForCapability_def Let_def)
    moreover from s have "b' \<in> set (Array_sort compareFn ?cs)" by simp
    then have "b' \<in> set ?cs" by (simp add: set_Array_sort)
    ultimately show ?thesis using m by simp
  qed
  show ?thesis
    using none some findBest_example by (simp add: compareFn_le_iff candidates_of_def)
qed

theorem findBestForCapability_minimal_witness:
  "findBestForCapability ''testing'' (Some ''C'') ex_registry = Some (agent_of ''A'' ''alpha'' idle 5 True) \<and>
   agent_of ''A'' ''alpha'' idle 5 True \<in> set (candidates_of ''testing'' (Some ''C'') ex_registry) \<and>
   agent_of ''B'' ''beta'' working 10 True \<in> set (candidates_of ''testing'' (Some ''C'') ex_registry) \<and>
   statusPriority (status (agent_of ''A'' ''alpha'' idle 5 True))
     < statusPriority (status (agent_of ''B'' ''beta'' working 10 True)) \<and>
   findBestForCapability ''deploy'' None ex_registry = None \<and>
   candidates_of ''deploy'' None ex_registry = []"
proof -
  have e: "findBestForCapability ''testing'' (Some ''C'') ex_registry
      = Some (agent_of ''A'' ''alpha'' idle 5 True)"
    by (simp add: findBestForCapability_def candidates_of_def findByCapability_def getAll_def
      Map_values_def ex_registry_def agent_of_def Array_sort_def compareFn_def)
  have c: "candidates_of ''deploy'' None ex_registry = []"
    by (simp add: candidates_of_def findByCapability_def getAll_def
      Map_values_def ex_registry_def agent_of_def)
  have b: "agent_of ''B'' ''beta'' working 10 True \<in> set (candidates_of ''testing'' (Some ''C'') ex_registry)"
    by (simp add: candidates_of_def findByCapability_def getAll_def
      Map_values_def ex_registry_def agent_of_def)
  from findBestForCapability_minimal [of "''testing''" "Some ''C''" ex_registry] e
  have "agent_of ''A'' ''alpha'' idle 5 True \<in> set (candidates_of ''testing'' (Some ''C'') ex_registry)"
    by blast
  moreover from findBestForCapability_minimal [of "''deploy''" None ex_registry] c
  have "findBestForCapability ''deploy'' None ex_registry = None" by blast
  ultimately show ?thesis using e b c by (simp add: agent_of_def)
qed

lemma set_cond_append: "set (if b then c @ [x] else c) = (if b then {x} else {}) \<union> set c"
  by simp

lemma set_inferCapabilities:
  "set (inferCapabilities session) =
      (if String_includes (toLowerCase (session_name session)) ''security''
          \<or> String_includes (toLowerCase (session_name session)) ''auth''
          \<or> String_includes (toLowerCase (session_name session)) ''secure''
       then {''security''} else {})
    \<union> ((if String_includes (toLowerCase (session_name session)) ''devops''
          \<or> String_includes (toLowerCase (session_name session)) ''deploy''
          \<or> String_includes (toLowerCase (session_name session)) ''ci''
          \<or> String_includes (toLowerCase (session_name session)) ''docker''
       then {''devops''} else {})
    \<union> ((if String_includes (toLowerCase (session_name session)) ''test''
          \<or> String_includes (toLowerCase (session_name session)) ''spec''
          \<or> String_includes (toLowerCase (session_name session)) ''e2e''
       then {''testing''} else {})
    \<union> ((if String_includes (toLowerCase (session_name session)) ''database''
          \<or> String_includes (toLowerCase (session_name session)) ''db''
          \<or> String_includes (toLowerCase (session_name session)) ''sql''
          \<or> String_includes (toLowerCase (session_name session)) ''postgres''
       then {''database''} else {})
    \<union> ((if String_includes (toLowerCase (session_name session)) ''backend''
          \<or> String_includes (toLowerCase (session_name session)) ''api''
          \<or> String_includes (toLowerCase (session_name session)) ''server''
       then {''backend''} else {})
    \<union> ((if String_includes (toLowerCase (session_name session)) ''frontend''
          \<or> String_includes (toLowerCase (session_name session)) ''ui''
          \<or> String_includes (toLowerCase (session_name session)) ''react''
          \<or> String_includes (toLowerCase (session_name session)) ''vue''
       then {''frontend''} else {})
    \<union> set [''general''])))))"
  unfolding inferCapabilities_def Let_def set_Set_spread set_cond_append
  by (rule refl)

text \<open>
  C9. The capability list that \<^verbatim>\<open>registerFromSession\<close> stores contains general, has
  no duplicates, and contains the capability of every rule one of whose keywords occurs
  in the display name in any mix of upper and lower case; all rules that match apply.
\<close>

theorem registerFromSession_capabilities:
  "''general'' \<in> set (capabilities (fst (registerFromSession session r))) \<and>
   distinct (capabilities (fst (registerFromSession session r))) \<and>
   (\<forall>pre w post kw cap.
      session_name session = pre @ w @ post \<and> toLowerCase w = kw \<and>
      (kw, cap) \<in> {(''frontend'', ''frontend''), (''ui'', ''frontend''), (''react'', ''frontend''),
                    (''backend'', ''backend''), (''api'', ''backend''), (''server'', ''backend''),
                    (''database'', ''database''), (''db'', ''database''), (''sql'', ''database''),
                    (''test'', ''testing''), (''spec'', ''testing''), (''e2e'', ''testing''),
                    (''devops'', ''devops''), (''deploy'', ''devops''), (''ci'', ''devops''),
                    (''docker'', ''devops''),
                    (''security'', ''security''), (''auth'', ''security''), (''secure'', ''security'')}
      \<longrightarrow> cap \<in> set (capabilities (fst (registerFromSession session r))))"
proof -
  have caps: "capabilities (fst (registerFromSession session r)) = inferCapabilities session"
    by (simp add: registerFromSession_def Let_def)
  have g: "''general'' \<in> set (inferCapabilities session)"
    unfolding set_inferCapabilities by simp
  have d: "distinct (inferCapabilities session)"
    by (simp add: inferCapabilities_def Let_def distinct_Set_spread)
  have rule: "cap \<in> set (inferCapabilities session)"
    if n: "session_name session = pre @ w @ post" and l: "toLowerCase w = kw"
      and m: "(kw, cap) \<in> {(''frontend'', ''frontend''), (''ui'', ''frontend''), (''react'', ''frontend''),
                    (''backend'', ''backend''), (''api'', ''backend''), (''server'', ''backend''),
                    (''database'', ''database''), (''db'', ''database''), (''sql'', ''database''),
                    (''test'', ''testing''), (''spec'', ''testing''), (''e2e'', ''testing''),
                    (''devops'', ''devops''), (''deploy'', ''devops''), (''ci'', ''devops''),
                    (''docker'', ''devops''),
                    (''security'', ''security''), (''auth'', ''security''), (''secure'', ''security'')}"
    for pre w post kw cap
  proof -
    have i: "String_includes (toLowerCase (session_name session)) kw"
      using includes_lower [OF n l] .
    from m i show ?thesis
      unfolding set_inferCapabilities by (elim insertE emptyE; simp)
  qed
  show ?thesis
    unfolding caps
  proof (intro conjI allI impI)
    show "''general'' \<in> set (inferCapabilities session)" by (rule g)
    show "distinct (inferCapabilities session)" by (rule d)
  next
    fix pre w post kw cap
    assume "session_name session = pre @ w @ post \<and> toLowerCase w = kw \<and>
      (kw, cap) \<in> {(''frontend'', ''frontend''), (''ui'', ''frontend''), (''react'', ''frontend''),
                    (''backend'', ''backend''), (''api'', ''backend''), (''server'', ''backend''),
                    (''database'', ''database''), (''db'', ''database''), (''sql'', ''database''),
                    (''test'', ''testing''), (''spec'', ''testing''), (''e2e'', ''testing''),
                    (''devops'', ''devops''), (''deploy'', ''devops''), (''ci'', ''devops''),
                    (''docker'', ''devops''),
                    (''security'', ''security''), (''auth'', ''security''), (''secure'', ''security'')}"
    then show "cap \<in> set (inferCapabilities session)"
      using rule [of pre w post kw cap] by (elim conjE) 
  qed
qed

theorem registerFromSession_capabilities_witness:
  "session_name ex_session = ''React '' @ ''API'' @ '' Tests'' \<and> toLowerCase ''API'' = ''api'' \<and>
   ''backend'' \<in> set (capabilities (fst (registerFromSession ex_session ex_registry))) \<and>
   capabilities (fst (registerFromSession ex_session ex_registry))
     = [''general'', ''frontend'', ''backend'', ''testing'']"
proof -
  have n: "session_name ex_session = ''React '' @ ''API'' @ '' Tests''"
    by (simp add: ex_session_def)
  have l: "toLowerCase ''API'' = ''api''" by code_simp
  have e: "inferCapabilities ex_session = [''general'', ''frontend'', ''backend'', ''testing'']"
    by code_simp
  have c: "capabilities (fst (registerFromSession ex_session ex_registry))
     = [''general'', ''frontend'', ''backend'', ''testing'']"
    using e by (simp add: registerFromSession_def Let_def)
  have "''backend'' \<in> set (capabilities (fst (registerFromSession ex_session ex_registry)))"
    using n l
      registerFromSession_capabilities [of ex_session ex_registry, THEN conjunct2, THEN conjunct2,
        rule_format, of "''React ''" "''API''" "'' Tests''" "''api''" "''backend''"]
    by simp
  with n l c show ?thesis by (intro conjI)
qed

text \<open>
  C10. For an agent id that is not in the registry, \<^verbatim>\<open>updateStatus\<close> leaves the
  registry as it is, map and notifications alike, and \<^verbatim>\<open>unregister\<close> returns false and
  leaves it as it is. So when either call has made a change callback run, the agent was
  present and its entry was updated or removed.
\<close>

theorem absent_agent_no_change:
  "(\<not> Map_has (agents r) aid \<longrightarrow>
      updateStatus now aid st r = r \<and> unregister aid r = (False, r)) \<and>
   (notifications (updateStatus now aid st r) \<noteq> notifications r \<longrightarrow>
      Map_has (agents r) aid
      \<and> map_option status (get (updateStatus now aid st r) aid) = Some st) \<and>
   (notifications (snd (unregister aid r)) \<noteq> notifications r \<longrightarrow>
      Map_has (agents r) aid \<and> fst (unregister aid r)
      \<and> \<not> Map_has (agents (snd (unregister aid r))) aid)"
proof -
  have absent: "updateStatus now aid st r = r \<and> unregister aid r = (False, r)"
    if "\<not> Map_has (agents r) aid"
  proof -
    from that have n: "Map_get (agents r) aid = None" by (simp add: Map_has_def)
    then show ?thesis
      by (simp add: updateStatus_def unregister_def Let_def Map_has_def Map_delete_absent)
  qed
  have upd: "map_option status (get (updateStatus now aid st r) aid) = Some st"
    if "Map_has (agents r) aid"
    using that
    by (auto simp: updateStatus_def Map_has_def get_def notifyChange_def Map_get_Map_set)
  have unreg: "fst (unregister aid r) \<and> \<not> Map_has (agents (snd (unregister aid r))) aid"
    if "Map_has (agents r) aid"
    using that
    by (simp add: unregister_def Let_def notifyChange_def Map_has_def Map_get_Map_delete)
  have p1: "\<not> Map_has (agents r) aid \<longrightarrow>
      updateStatus now aid st r = r \<and> unregister aid r = (False, r)"
    using absent by (rule impI)
  have p2: "notifications (updateStatus now aid st r) \<noteq> notifications r \<longrightarrow>
      Map_has (agents r) aid
      \<and> map_option status (get (updateStatus now aid st r) aid) = Some st"
  proof
    assume c: "notifications (updateStatus now aid st r) \<noteq> notifications r"
    have h: "Map_has (agents r) aid"
    proof (rule ccontr)
      assume "\<not> Map_has (agents r) aid"
      from absent [OF this] have "updateStatus now aid st r = r" by (rule conjunct1)
      with c show False by simp
    qed
    with upd show "Map_has (agents r) aid
      \<and> map_option status (get (updateStatus now aid st r) aid) = Some st"
      by (intro conjI)
  qed
  have p3: "notifications (snd (unregister aid r)) \<noteq> notifications r \<longrightarrow>
      Map_has (agents r) aid \<and> fst (unregister aid r)
      \<and> \<not> Map_has (agents (snd (unregister aid r))) aid"
  proof
    assume c: "notifications (snd (unregister aid r)) \<noteq> notifications r"
    have h: "Map_has (agents r) aid"
    proof (rule ccontr)
      assume "\<not> Map_has (agents r) aid"
      from absent [OF this] have "unregister aid r = (False, r)" by (rule conjunct2)
      with c show False by simp
    qed
    from unreg [OF h] h show "Map_has (agents r) aid \<and> fst (unregister aid r)
      \<and> \<not> Map_has (agents (snd (unregister aid r))) aid"
      by (intro conjI) (simp_all only: simp_thms)
  qed
  show ?thesis by (rule conjI [OF p1 conjI [OF p2 p3]])
qed

theorem absent_agent_no_change_witness:
  "\<not> Map_has (agents ex_registry) ''ghost'' \<and>
   updateStatus 77 ''ghost'' working ex_registry = ex_registry \<and>
   unregister ''ghost'' ex_registry = (False, ex_registry) \<and>
   notifications (updateStatus 77 ''B'' idle ex_registry) \<noteq> notifications ex_registry \<and>
   Map_has (agents ex_registry) ''B'' \<and>
   notifications (snd (unregister ''B'' ex_registry)) \<noteq> notifications ex_registry \<and>
   fst (unregister ''B'' ex_registry)"
proof -
  have a: "\<not> Map_has (agents ex_registry) ''ghost''"
    by (simp add: Map_has_def Map_get_def ex_registry_def)
  have n1: "notifications (updateStatus 77 ''B'' idle ex_registry) \<noteq> notifications ex_registry"
    by (simp add: updateStatus_def notifyChange_def Map_get_def ex_registry_def)
  have n2: "notifications (snd (unregister ''B'' ex_registry)) \<noteq> notifications ex_registry"
    by (simp add: unregister_def Let_def notifyChange_def Map_has_def Map_get_def ex_registry_def)
  from absent_agent_no_change [of ex_registry "''ghost''" 77 working] a
  have "updateStatus 77 ''ghost'' working ex_registry = ex_registry
      \<and> unregister ''ghost'' ex_registry = (False, ex_registry)" by blast
  moreover from absent_agent_no_change [of ex_registry "''B''" 77 idle] n1 n2
  have "Map_has (agents ex_registry) ''B'' \<and> fst (unregister ''B'' ex_registry)" by blast
  ultimately show ?thesis using a n1 n2 by blast
qed

section \<open>Properties of double rounding\<close>

lemma round_even_ge: "of_int n \<le> m \<Longrightarrow> n \<le> round_even m"
  unfolding round_even_def Let_def by (simp add: le_floor_iff) linarith

lemma round_even_le: "m \<le> of_int n \<Longrightarrow> round_even m \<le> n"
  unfolding round_even_def Let_def by (auto; linarith)

lemma round_even_int: "round_even (of_int k) = k"
  by (simp add: round_even_def)

lemma ulp_pos: "0 < ulp x"
  by (simp add: ulp_def)

lemma binade_ge: "- 1022 \<le> binade x"
  by (simp add: binade_def)

lemma binade_mono: "0 < x \<Longrightarrow> x \<le> y \<Longrightarrow> binade x \<le> binade y"
  unfolding binade_def by (intro max.mono floor_mono) (simp_all)

lemma binade_eq:
  "0 < x \<Longrightarrow> 2 powr of_int e \<le> x \<Longrightarrow> x < 2 powr of_int (e + 1) \<Longrightarrow> - 1022 \<le> e \<Longrightarrow> binade x = e"
  unfolding binade_def using floor_log_eq_powr_iff [of x 2 e] by simp


lemma to_double_nonneg: "0 \<le> x \<Longrightarrow> 0 \<le> to_double x"
proof -
  assume "0 \<le> x"
  then have "of_int 0 \<le> x / ulp x" using ulp_pos [of x] by simp
  then have "0 \<le> round_even (x / ulp x)" by (rule round_even_ge)
  then show ?thesis using ulp_pos [of x] by (simp add: to_double_def)
qed

lemma below_next_power: "0 < x \<Longrightarrow> x < 2 powr of_int (binade x + 1)"
proof -
  assume x: "0 < x"
  have "x < 2 powr of_int (\<lfloor>log 2 x\<rfloor> + 1)"
    using floor_log_eq_powr_iff [of x 2 "\<lfloor>log 2 x\<rfloor>"] x by simp
  also have "\<dots> \<le> 2 powr of_int (binade x + 1)"
    using x by (simp add: binade_def)
  finally show ?thesis .
qed

lemma above_power: "0 < x \<Longrightarrow> - 1022 < binade x \<Longrightarrow> 2 powr of_int (binade x) \<le> x"
proof -
  assume x: "0 < x" and b: "- 1022 < binade x"
  then have "binade x = \<lfloor>log 2 x\<rfloor>" by (simp add: binade_def max_def split: if_splits)
  then show ?thesis using floor_log_eq_powr_iff [of x 2 "\<lfloor>log 2 x\<rfloor>"] x by simp
qed

lemma ulp_times: "of_int k * ulp x = of_int k * 2 powr of_int (binade x) / 2 ^ 52"
  by (simp add: ulp_def powr_diff)

lemma to_double_le_next_power: "0 < x \<Longrightarrow> to_double x \<le> 2 powr of_int (binade x + 1)"
proof -
  assume x: "0 < x"
  have u: "ulp x * 2 ^ 53 = 2 powr of_int (binade x + 1)"
    by (simp add: ulp_def powr_diff powr_add)
  from below_next_power [OF x] have "x < ulp x * 2 ^ 53" by (simp only: u)
  then have "x / ulp x \<le> of_int (2 ^ 53)" using ulp_pos [of x] by (simp add: field_simps)
  then have "round_even (x / ulp x) \<le> 2 ^ 53" by (rule round_even_le)
  then have "of_int (round_even (x / ulp x)) \<le> (2 ^ 53 :: real)"
    by (metis of_int_le_iff of_int_numeral of_int_power)
  then have "to_double x \<le> 2 ^ 53 * ulp x"
    unfolding to_double_def using ulp_pos [of x] by (simp add: mult_right_mono)
  then show ?thesis using u by (simp add: mult.commute)
qed

lemma to_double_ge_power:
  "0 < x \<Longrightarrow> - 1022 < binade x \<Longrightarrow> 2 powr of_int (binade x) \<le> to_double x"
proof -
  assume x: "0 < x" and b: "- 1022 < binade x"
  have u: "ulp x * 2 ^ 52 = 2 powr of_int (binade x)"
    by (simp add: ulp_def powr_diff)
  from above_power [OF x b] have "ulp x * 2 ^ 52 \<le> x" by (simp only: u)
  then have "of_int (2 ^ 52) \<le> x / ulp x" using ulp_pos [of x] by (simp add: field_simps)
  then have "2 ^ 52 \<le> round_even (x / ulp x)" by (rule round_even_ge)
  then have "(2 ^ 52 :: real) \<le> of_int (round_even (x / ulp x))"
    by (metis of_int_le_iff of_int_numeral of_int_power)
  then have "2 ^ 52 * ulp x \<le> to_double x"
    unfolding to_double_def using ulp_pos [of x] by (simp add: mult_right_mono)
  then show ?thesis using u by (simp add: mult.commute)
qed

text \<open>Rounding does not cross a representable number.\<close>

lemma to_double_le:
  assumes x: "0 < x" and le: "x \<le> b" and rep: "b = of_int k * ulp b"
  shows "to_double x \<le> b"
proof -
  from x le have b: "0 < b" by simp
  from binade_mono [OF x le] consider "binade x = binade b" | "binade x < binade b" by linarith
  then show ?thesis
  proof cases
    case 1
    then have u: "ulp x = ulp b" by (simp add: ulp_def)
    from le rep have "x \<le> of_int k * ulp x" by (simp add: u)
    then have "x / ulp x \<le> of_int k" using ulp_pos [of x] by (simp add: field_simps)
    then have "round_even (x / ulp x) \<le> k" by (rule round_even_le)
    then have "to_double x \<le> of_int k * ulp x"
      unfolding to_double_def using ulp_pos [of x] by (simp add: mult_right_mono)
    with rep u show ?thesis by simp
  next
    case 2
    with binade_ge [of x] have "- 1022 < binade b" by linarith
    from above_power [OF b this] have "2 powr of_int (binade b) \<le> b" .
    moreover from 2 have "2 powr of_int (binade x + 1) \<le> (2::real) powr of_int (binade b)"
      by (intro powr_mono) simp_all
    ultimately show ?thesis using to_double_le_next_power [OF x] by linarith
  qed
qed

lemma to_double_ge:
  assumes a: "0 < a" and le: "a \<le> x" and rep: "a = of_int k * ulp a"
  shows "a \<le> to_double x"
proof -
  from a le have x: "0 < x" by simp
  from binade_mono [OF a le] consider "binade a = binade x" | "binade a < binade x" by linarith
  then show ?thesis
  proof cases
    case 1
    then have u: "ulp x = ulp a" by (simp add: ulp_def)
    from le rep have "of_int k * ulp x \<le> x" by (simp add: u)
    then have "of_int k \<le> x / ulp x" using ulp_pos [of x] by (simp add: field_simps)
    then have "k \<le> round_even (x / ulp x)" by (rule round_even_ge)
    then have "of_int k * ulp x \<le> to_double x"
      unfolding to_double_def using ulp_pos [of x] by (simp add: mult_right_mono)
    with rep u show ?thesis by simp
  next
    case 2
    with binade_ge [of a] have "- 1022 < binade x" by linarith
    from to_double_ge_power [OF x this] have "2 powr of_int (binade x) \<le> to_double x" .
    moreover from 2 have "2 powr of_int (binade a + 1) \<le> (2::real) powr of_int (binade x)"
      by (intro powr_mono) simp_all
    ultimately show ?thesis using below_next_power [OF a] by linarith
  qed
qed

lemma to_double_exact: "x = of_int k * ulp x \<Longrightarrow> to_double x = x"
proof -
  assume r: "x = of_int k * ulp x"
  then have "x / ulp x = of_int k" using ulp_pos [of x] by (simp add: field_simps)
  then show ?thesis using r by (simp add: to_double_def round_even_int)
qed


lemma int_representable:
  assumes "1 \<le> n" and "n < 2 ^ 53"
  shows "\<exists>k. (of_int n :: real) = of_int k * ulp (of_int n)"
proof -
  let ?x = "of_int n :: real"
  let ?e = "\<lfloor>log 2 ?x\<rfloor>"
  from assms have x: "0 < ?x" "1 \<le> ?x" by simp_all
  have lo: "0 \<le> ?e" using x by simp
  have "?x < 2 ^ 53" using assms(2) by (metis of_int_less_iff of_int_numeral of_int_power)
  then have "log 2 ?x < 53" using x by (simp add: log_less_iff)
  then have hi: "?e \<le> 52" by (simp add: floor_le_iff)
  have b: "binade ?x = ?e"
  proof -
    have "\<bar>?x\<bar> = ?x" using x by simp
    then have "binade ?x = max ?e (- 1022)" by (simp only: binade_def)
    with lo show ?thesis by linarith
  qed
  have "ulp ?x = inverse (2 ^ nat (52 - ?e))"
    unfolding ulp_def b using hi powr_real_of_int [of 2 "?e - 52"] by (simp del: of_int_diff)
  then have "?x = of_int (n * 2 ^ nat (52 - ?e)) * ulp ?x" by simp
  then show ?thesis by blast
qed

lemma to_double_int: "1 \<le> n \<Longrightarrow> n < 2 ^ 53 \<Longrightarrow> to_double (of_int n) = of_int n"
  using int_representable [of n] to_double_exact by blast

lemma to_double_zero: "to_double 0 = 0"
  by (simp add: to_double_def round_even_def)

lemma to_double_between:
  assumes "1 \<le> a" and "a \<le> b" and "b < 2 ^ 53" and "of_int a \<le> x" and "x \<le> of_int b"
  shows "of_int a \<le> to_double x" and "to_double x \<le> of_int b"
proof -
  from assms have x: "0 < x" and a: "0 < (of_int a :: real)" by simp_all
  from assms obtain k where "(of_int a :: real) = of_int k * ulp (of_int a)"
    using int_representable [of a] by auto
  from to_double_ge [OF a assms(4) this] show "of_int a \<le> to_double x" .
  from assms obtain k where "(of_int b :: real) = of_int k * ulp (of_int b)"
    using int_representable [of b] by auto
  from to_double_le [OF x assms(5) this] show "to_double x \<le> of_int b" .
qed

lemma to_double_below:
  assumes "1 \<le> b" and "b < 2 ^ 53" and "0 \<le> x" and "x \<le> of_int b"
  shows "0 \<le> to_double x" and "to_double x \<le> of_int b"
proof -
  show "0 \<le> to_double x" using assms(3) by (rule to_double_nonneg)
  show "to_double x \<le> of_int b"
  proof (cases "x = 0")
    case True
    with assms(1) show ?thesis by (simp add: to_double_zero)
  next
    case False
    with assms(3) have x: "0 < x" by simp
    from assms obtain k where "(of_int b :: real) = of_int k * ulp (of_int b)"
      using int_representable [of b] by auto
    from to_double_le [OF x assms(4) this] show ?thesis .
  qed
qed

lemma to_double_1000: "to_double 1000 = 1000"
  using to_double_int [of 1000] by simp

lemma to_double_2000: "to_double 2000 = 2000"
  using to_double_int [of 2000] by simp

lemma jitter_bounds:
  "0 \<le> r \<Longrightarrow> r < 1 \<Longrightarrow> 0 \<le> to_double (r * 1000) \<and> to_double (r * 1000) \<le> 1000"
  using to_double_below [of 1000 "r * 1000"] by simp

lemma first_sum_bounds:
  "0 \<le> j \<Longrightarrow> j \<le> 1000 \<Longrightarrow> 1000 \<le> to_double (1000 + j) \<and> to_double (1000 + j) \<le> 2000"
  using to_double_between [of 1000 2000 "1000 + j"] by simp

lemma second_sum_bounds:
  "0 \<le> j \<Longrightarrow> j \<le> 1000 \<Longrightarrow> 2000 \<le> to_double (2000 + j) \<and> to_double (2000 + j) \<le> 3000"
  using to_double_between [of 2000 3000 "2000 + j"] by simp

text \<open>
  The upper ends are reached: for the random number \<open>1 - 2^-52\<close> the jitter is
  \<open>1000 - 2^-42\<close> and the sum with 2000 lies halfway between two doubles, the even
  one being 3000; for \<open>1 - 2^-53\<close>, the largest double below 1, the jitter is
  \<open>1000 - 2^-43\<close> and the sum with 1000 rounds to 2000.
\<close>

lemma binade_jitter_52: "binade (1000 - 1000 / 2 ^ 52) = 9"
  by (rule binade_eq) simp_all

lemma ulp_jitter_52: "ulp (1000 - 1000 / 2 ^ 52) = 1 / 2 ^ 43"
  unfolding ulp_def binade_jitter_52 by (simp add: powr_minus inverse_eq_divide)

lemma jitter_52: "to_double ((1 - 1 / 2 ^ 52) * 1000) = 1000 - 1 / 2 ^ 42"
proof -
  have e: "(1 - 1 / 2 ^ 52) * 1000 = (1000 - 1000 / 2 ^ 52 :: real)" by simp
  show ?thesis
    unfolding e to_double_def ulp_jitter_52 by (simp add: round_even_def)
qed

lemma binade_sum_52: "binade (3000 - 1 / 2 ^ 42) = 11"
  by (rule binade_eq) simp_all

lemma ulp_sum_52: "ulp (3000 - 1 / 2 ^ 42) = 1 / 2 ^ 41"
  unfolding ulp_def binade_sum_52 by (simp add: powr_minus inverse_eq_divide)

lemma sum_52: "to_double (2000 + (1000 - 1 / 2 ^ 42)) = 3000"
proof -
  have e: "2000 + (1000 - 1 / 2 ^ 42) = (3000 - 1 / 2 ^ 42 :: real)" by simp
  show ?thesis
    unfolding e to_double_def ulp_sum_52 by (simp add: round_even_def)
qed

lemma binade_jitter_53: "binade (1000 - 1000 / 2 ^ 53) = 9"
  by (rule binade_eq) simp_all

lemma ulp_jitter_53: "ulp (1000 - 1000 / 2 ^ 53) = 1 / 2 ^ 43"
  unfolding ulp_def binade_jitter_53 by (simp add: powr_minus inverse_eq_divide)

lemma jitter_53: "to_double ((1 - 1 / 2 ^ 53) * 1000) = 1000 - 1 / 2 ^ 43"
proof -
  have e: "(1 - 1 / 2 ^ 53) * 1000 = (1000 - 1000 / 2 ^ 53 :: real)" by simp
  show ?thesis
    unfolding e to_double_def ulp_jitter_53 by (simp add: round_even_def)
qed

lemma binade_sum_53: "binade (2000 - 1 / 2 ^ 43) = 10"
  by (rule binade_eq) simp_all

lemma ulp_sum_53: "ulp (2000 - 1 / 2 ^ 43) = 1 / 2 ^ 42"
  unfolding ulp_def binade_sum_53 by (simp add: powr_minus inverse_eq_divide)

lemma sum_53: "to_double (1000 + (1000 - 1 / 2 ^ 43)) = 2000"
proof -
  have e: "1000 + (1000 - 1 / 2 ^ 43) = (2000 - 1 / 2 ^ 43 :: real)" by simp
  show ?thesis
    unfolding e to_double_def ulp_sum_53 by (simp add: round_even_def)
qed

section \<open>Properties of the retry chain\<close>

lemma retry_delay_1: "retry_delay 1 x = min (to_double (1000 + to_double (x * 1000))) 10000"
  by (simp add: retry_delay_def RETRY_CONFIG_def to_double_1000)

lemma retry_delay_2: "retry_delay 2 x = min (to_double (2000 + to_double (x * 1000))) 10000"
  by (simp add: retry_delay_def RETRY_CONFIG_def to_double_2000)

lemma retry_delay_bounds:
  assumes "0 \<le> x" and "x < 1"
  shows "1000 \<le> retry_delay 1 x" and "retry_delay 1 x \<le> 2000"
    and "2000 \<le> retry_delay 2 x" and "retry_delay 2 x \<le> 3000"
proof -
  from jitter_bounds [OF assms]
  have j: "0 \<le> to_double (x * 1000)" "to_double (x * 1000) \<le> 1000" by simp_all
  from first_sum_bounds [OF j] show "1000 \<le> retry_delay 1 x" and "retry_delay 1 x \<le> 2000"
    unfolding retry_delay_1 by simp_all
  from second_sum_bounds [OF j] show "2000 \<le> retry_delay 2 x" and "retry_delay 2 x \<le> 3000"
    unfolding retry_delay_2 by simp_all
qed

lemma retry_delay_half: "retry_delay 1 (1 / 2) = 1500" "retry_delay 2 (1 / 2) = 2500"
  unfolding retry_delay_1 retry_delay_2
  using to_double_int [of 500] to_double_int [of 1500] to_double_int [of 2500]
  by simp_all

lemma retry_delay_upper_ends:
  "retry_delay 2 (1 - 1 / 2 ^ 52) = 3000" "retry_delay 1 (1 - 1 / 2 ^ 53) = 2000"
  unfolding retry_delay_1 retry_delay_2 jitter_52 sum_52 jitter_53 sum_53 by simp_all

lemma deliverWithRetry_last:
  "deliverWithRetry deliver rnd aid msg 3 = (deliver aid msg 3, 1, [])"
  by (subst deliverWithRetry.simps) (simp add: RETRY_CONFIG_def split: option.splits)

lemma deliverWithRetry_success:
  "deliver aid msg attempt = None \<Longrightarrow> deliverWithRetry deliver rnd aid msg attempt = (None, 1, [])"
  by (subst deliverWithRetry.simps) simp

lemma deliverWithRetry_three_failures:
  assumes "deliver aid msg 1 \<noteq> None" and "deliver aid msg 2 \<noteq> None"
  shows "deliverWithRetry deliver rnd aid msg 1 =
     (deliver aid msg 3, 3, [retry_delay 1 (rnd 1), retry_delay 2 (rnd 2)])"
proof -
  from assms obtain e1 e2 where e: "deliver aid msg 1 = Some e1" "deliver aid msg 2 = Some e2"
    by auto
  have s2: "deliverWithRetry deliver rnd aid msg 2 =
      (deliver aid msg 3, 2, [retry_delay 2 (rnd 2)])"
    by (subst deliverWithRetry.simps)
      (simp add: e RETRY_CONFIG_def Let_def deliverWithRetry_last)
  show ?thesis
    by (subst deliverWithRetry.simps) (simp add: e RETRY_CONFIG_def Let_def s2 del: One_nat_def)
qed

text \<open>
  C2, as the code has it. When every call of the delivery callback fails,
  \<^verbatim>\<open>deliverWithRetry\<close> makes exactly three calls and settles with the failure of the
  third. The delays are computed in double arithmetic, with the jitter
  \<^verbatim>\<open>Math.random() * 1000\<close>. For every value of \<^verbatim>\<open>Math.random()\<close> in [0, 1) the delay
  before the second attempt is min(1000 * 2^0 + jitter, 10000) and lies in
  [1000, 2000], and the delay before the third attempt is min(1000 * 2^1 + jitter, 10000)
  and lies in [2000, 3000]; rounding reaches the upper ends.
  \<^verbatim>\<open>sendMessage\<close> then returns a failure result with the message of that third failure.
\<close>

theorem deliverWithRetry_always_failing:
  assumes "\<forall>n. deliver aid msg n \<noteq> None" and "\<forall>n. 0 \<le> rnd n \<and> rnd n < 1"
  shows "deliverWithRetry deliver rnd aid msg 1 =
           (deliver aid msg 3, 3, [retry_delay 1 (rnd 1), retry_delay 2 (rnd 2)])
       \<and> retry_delay 1 (rnd 1) = min (to_double (1000 * 2 ^ 0 + to_double (rnd 1 * 1000))) 10000
       \<and> 1000 \<le> retry_delay 1 (rnd 1) \<and> retry_delay 1 (rnd 1) \<le> 2000
       \<and> retry_delay 2 (rnd 2) = min (to_double (1000 * 2 ^ 1 + to_double (rnd 2 * 1000))) 10000
       \<and> 2000 \<le> retry_delay 2 (rnd 2) \<and> retry_delay 2 (rnd 2) \<le> 3000
       \<and> fst (sendMessage_resume call (deliverWithRetry deliver rnd aid msg 1) s) =
           Returned ((result_of False)\<lparr>messageId := Some (call_messageId call),
              error := Some (thrown_message (the (deliver aid msg 3)))\<rparr>)"
proof -
  from assms(1) have f: "deliver aid msg 1 \<noteq> None" "deliver aid msg 2 \<noteq> None" by simp_all
  have r: "deliverWithRetry deliver rnd aid msg 1 =
     (deliver aid msg 3, 3, [retry_delay 1 (rnd 1), retry_delay 2 (rnd 2)])"
    using f by (rule deliverWithRetry_three_failures)
  from assms(2) have b1: "0 \<le> rnd 1" "rnd 1 < 1" and b2: "0 \<le> rnd 2" "rnd 2 < 1" by simp_all
  from assms(1) obtain e where e: "deliver aid msg 3 = Some e" by auto
  have d1: "retry_delay 1 (rnd 1) = min (to_double (1000 * 2 ^ 0 + to_double (rnd 1 * 1000))) 10000"
    unfolding retry_delay_1 by simp
  have d2: "retry_delay 2 (rnd 2) = min (to_double (1000 * 2 ^ 1 + to_double (rnd 2 * 1000))) 10000"
    unfolding retry_delay_2 by simp
  have "fst (sendMessage_resume call (deliverWithRetry deliver rnd aid msg 1) s) =
           Returned ((result_of False)\<lparr>messageId := Some (call_messageId call),
              error := Some (thrown_message (the (deliver aid msg 3)))\<rparr>)"
    unfolding r by (simp add: sendMessage_resume_def delivery_failed_def Let_def e)
  with r d1 d2 retry_delay_bounds(1,2) [OF b1] retry_delay_bounds(3,4) [OF b2] show ?thesis
    by (intro conjI)
qed

theorem deliverWithRetry_always_failing_witness:
  "deliverWithRetry always_fails (\<lambda>n. 1 / 2) ''B'' ex_event 1 =
     (Some (Error ''unreachable''), 3, [1500, 2500])"
proof -
  have a: "\<forall>n. always_fails ''B'' ex_event n \<noteq> None" by (simp add: always_fails_def)
  have b: "\<forall>n. 0 \<le> (\<lambda>n. 1 / 2 :: real) n \<and> (\<lambda>n. 1 / 2 :: real) n < 1" by simp
  from deliverWithRetry_always_failing [of always_fails "''B''" ex_event "\<lambda>n. 1 / 2", OF a b]
  show ?thesis
    by (simp add: always_fails_def retry_delay_half del: One_nat_def)
qed

theorem deliverWithRetry_third_delay_counterexample:
  "deliverWithRetry always_fails (\<lambda>n. 1 / 2) ''B'' ex_event 1 =
     (Some (Error ''unreachable''), 3, [1500, 2500])
   \<and> \<not> (3000 \<le> snd (snd (deliverWithRetry always_fails (\<lambda>n. 1 / 2) ''B'' ex_event 1)) ! 1)
   \<and> retry_delay 2 (1 - 1 / 2 ^ 52) = 3000
   \<and> retry_delay 1 (1 - 1 / 2 ^ 53) = 2000"
proof -
  have "deliverWithRetry always_fails (\<lambda>n. 1 / 2) ''B'' ex_event 1 =
     (Some (Error ''unreachable''), 3, [1500, 2500])"
    by (simp add: deliverWithRetry_three_failures always_fails_def retry_delay_half
        del: One_nat_def)
  with retry_delay_upper_ends show ?thesis by simp
qed

section \<open>Properties of sendMessage\<close>

lemma sendMessage_invalid:
  "sendMessage_begin reg now mid eid fromAgentId request s = (Returned v, s')
   \<Longrightarrow> sendMessage d rnd reg now mid eid fromAgentId request s = (Returned v, s')"
  by (simp add: sendMessage_def)

lemma sendMessage_begin_sender_unknown:
  "get reg fromAgentId = None \<Longrightarrow>
   sendMessage_begin reg now mid eid fromAgentId request s =
     (Returned (failure ''Sender agent not found in registry''), s)"
  by (simp add: sendMessage_begin_def failure_def)

lemma sendMessage_begin_unresolved:
  "get reg fromAgentId = Some fa \<Longrightarrow> resolve_target reg fromAgentId request = Inl e \<Longrightarrow>
   sendMessage_begin reg now mid eid fromAgentId request s = (Returned (failure e), s)"
  by (simp add: sendMessage_begin_def failure_def)

text \<open>
  C6, as the code has it. The validation failures of \<^verbatim>\<open>sendMessage\<close> are returned,
  with the router unchanged: an unknown sender; for a \<^verbatim>\<open>toAgentId\<close> that is present and
  not the empty string, a target that is absent, that does not accept messages, or that
  is offline, tested in this order; for a \<^verbatim>\<open>toCapability\<close> that is present and not
  empty, with \<^verbatim>\<open>toAgentId\<close> absent or empty, no best agent for the capability other
  than the sender; and both fields absent or empty. \<open>failure e\<close> is the object
  \<^verbatim>\<open>{ok: false, error: e}\<close>.
\<close>

theorem sendMessage_validation:
  "(get reg fromAgentId = None \<longrightarrow>
      sendMessage d rnd reg now mid eid fromAgentId request s =
        (Returned (failure ''Sender agent not found in registry''), s)) \<and>
   (get reg fromAgentId \<noteq> None \<and> truthy (toAgentId request) \<longrightarrow>
      (get reg (the (toAgentId request)) = None \<longrightarrow>
         sendMessage d rnd reg now mid eid fromAgentId request s =
           (Returned (failure (''Target agent not found: '' @ the (toAgentId request))), s)) \<and>
      (\<forall>t. get reg (the (toAgentId request)) = Some t \<and> \<not> acceptsMessages t \<longrightarrow>
         sendMessage d rnd reg now mid eid fromAgentId request s =
           (Returned (failure (''Target agent does not accept messages: ''
              @ the (toAgentId request))), s)) \<and>
      (\<forall>t. get reg (the (toAgentId request)) = Some t \<and> acceptsMessages t
            \<and> status t = offline \<longrightarrow>
         sendMessage d rnd reg now mid eid fromAgentId request s =
           (Returned (failure (''Target agent is offline: '' @ the (toAgentId request))), s))) \<and>
   (get reg fromAgentId \<noteq> None \<and> \<not> truthy (toAgentId request)
      \<and> truthy (toCapability request)
      \<and> findBestForCapability (the (toCapability request)) (Some fromAgentId) reg = None \<longrightarrow>
      sendMessage d rnd reg now mid eid fromAgentId request s =
        (Returned (failure (''No agent found with capability: ''
           @ the (toCapability request))), s)) \<and>
   (get reg fromAgentId \<noteq> None \<and> \<not> truthy (toAgentId request)
      \<and> \<not> truthy (toCapability request) \<longrightarrow>
      sendMessage d rnd reg now mid eid fromAgentId request s =
        (Returned (failure ''Must specify either toAgentId or toCapability''), s)) \<and>
   (\<forall>x. truthy x \<longleftrightarrow> (\<exists>v. x = Some v \<and> v \<noteq> []))"
proof (intro conjI impI allI)
  assume "get reg fromAgentId = None"
  then show "sendMessage d rnd reg now mid eid fromAgentId request s =
        (Returned (failure ''Sender agent not found in registry''), s)"
    by (intro sendMessage_invalid sendMessage_begin_sender_unknown)
next
  assume a: "get reg fromAgentId \<noteq> None \<and> truthy (toAgentId request)"
    and n: "get reg (the (toAgentId request)) = None"
  from a obtain fa where fa: "get reg fromAgentId = Some fa" by auto
  from a n have "resolve_target reg fromAgentId request
      = Inl (''Target agent not found: '' @ the (toAgentId request))"
    by (simp add: resolve_target_def)
  from sendMessage_begin_unresolved [OF fa this]
  show "sendMessage d rnd reg now mid eid fromAgentId request s =
           (Returned (failure (''Target agent not found: '' @ the (toAgentId request))), s)"
    by (rule sendMessage_invalid)
next
  fix t
  assume a: "get reg fromAgentId \<noteq> None \<and> truthy (toAgentId request)"
    and n: "get reg (the (toAgentId request)) = Some t \<and> \<not> acceptsMessages t"
  from a obtain fa where fa: "get reg fromAgentId = Some fa" by auto
  from a n have "resolve_target reg fromAgentId request
      = Inl (''Target agent does not accept messages: '' @ the (toAgentId request))"
    by (simp add: resolve_target_def)
  from sendMessage_begin_unresolved [OF fa this]
  show "sendMessage d rnd reg now mid eid fromAgentId request s =
           (Returned (failure (''Target agent does not accept messages: ''
              @ the (toAgentId request))), s)"
    by (rule sendMessage_invalid)
next
  fix t
  assume a: "get reg fromAgentId \<noteq> None \<and> truthy (toAgentId request)"
    and n: "get reg (the (toAgentId request)) = Some t \<and> acceptsMessages t \<and> status t = offline"
  from a obtain fa where fa: "get reg fromAgentId = Some fa" by auto
  from a n have "resolve_target reg fromAgentId request
      = Inl (''Target agent is offline: '' @ the (toAgentId request))"
    by (simp add: resolve_target_def)
  from sendMessage_begin_unresolved [OF fa this]
  show "sendMessage d rnd reg now mid eid fromAgentId request s =
           (Returned (failure (''Target agent is offline: '' @ the (toAgentId request))), s)"
    by (rule sendMessage_invalid)
next
  assume a: "get reg fromAgentId \<noteq> None \<and> \<not> truthy (toAgentId request)
      \<and> truthy (toCapability request)
      \<and> findBestForCapability (the (toCapability request)) (Some fromAgentId) reg = None"
  from a obtain fa where fa: "get reg fromAgentId = Some fa" by auto
  from a have "resolve_target reg fromAgentId request
      = Inl (''No agent found with capability: '' @ the (toCapability request))"
    by (simp add: resolve_target_def)
  from sendMessage_begin_unresolved [OF fa this]
  show "sendMessage d rnd reg now mid eid fromAgentId request s =
        (Returned (failure (''No agent found with capability: ''
           @ the (toCapability request))), s)"
    by (rule sendMessage_invalid)
next
  assume a: "get reg fromAgentId \<noteq> None \<and> \<not> truthy (toAgentId request)
      \<and> \<not> truthy (toCapability request)"
  from a obtain fa where fa: "get reg fromAgentId = Some fa" by auto
  from a have "resolve_target reg fromAgentId request
      = Inl ''Must specify either toAgentId or toCapability''"
    by (simp add: resolve_target_def)
  from sendMessage_begin_unresolved [OF fa this]
  show "sendMessage d rnd reg now mid eid fromAgentId request s =
        (Returned (failure ''Must specify either toAgentId or toCapability''), s)"
    by (rule sendMessage_invalid)
next
  fix x :: "string option"
  show "truthy x \<longleftrightarrow> (\<exists>v. x = Some v \<and> v \<noteq> [])"
    by (cases x) (simp_all add: truthy_def)
qed

lemma ex_registry5_get:
  "get ex_registry5 ''S'' = Some (agent_of ''S'' ''sender'' idle 1 True)"
  "get ex_registry5 ''E'' = Some (agent_of ''E'' ''eps'' offline 4 True)"
  "get ex_registry5 ''F'' = Some (agent_of ''F'' ''phi'' idle 6 False)"
  "get ex_registry5 ''Z'' = None"
  "get ex_registry5 [] = None"
  by (simp_all add: get_def Map_get_def ex_registry5_def)

theorem sendMessage_validation_witness:
  "sendMessage always_delivers (\<lambda>n. 0) ex_registry5 1000 ''m-1'' ''e-1'' ''Z'' (ex_to ''B'') new_router
     = (Returned (failure ''Sender agent not found in registry''), new_router) \<and>
   sendMessage always_delivers (\<lambda>n. 0) ex_registry5 1000 ''m-1'' ''e-1'' ''S'' (ex_to ''Z'') new_router
     = (Returned (failure ''Target agent not found: Z''), new_router) \<and>
   sendMessage always_delivers (\<lambda>n. 0) ex_registry5 1000 ''m-1'' ''e-1'' ''S'' (ex_to ''F'') new_router
     = (Returned (failure ''Target agent does not accept messages: F''), new_router) \<and>
   sendMessage always_delivers (\<lambda>n. 0) ex_registry5 1000 ''m-1'' ''e-1'' ''S'' (ex_to ''E'') new_router
     = (Returned (failure ''Target agent is offline: E''), new_router) \<and>
   sendMessage always_delivers (\<lambda>n. 0) ex_registry5 1000 ''m-1'' ''e-1'' ''S''
       (ex_to_capability (Some ''deploy'')) new_router
     = (Returned (failure ''No agent found with capability: deploy''), new_router) \<and>
   sendMessage always_delivers (\<lambda>n. 0) ex_registry5 1000 ''m-1'' ''e-1'' ''S''
       (ex_to_capability None) new_router
     = (Returned (failure ''Must specify either toAgentId or toCapability''), new_router)"
proof -
  note v = sendMessage_validation [of ex_registry5 _ always_delivers "\<lambda>n. 0" 1000 "''m-1''" "''e-1''"
      _ new_router]
  have nf: "findBestForCapability ''deploy'' (Some ''S'') ex_registry5 = None"
    by (simp add: findBestForCapability_def candidates_of_def findByCapability_def getAll_def
        Map_values_def ex_registry5_def agent_of_def)
  have 1: "sendMessage always_delivers (\<lambda>n. 0) ex_registry5 1000 ''m-1'' ''e-1'' ''Z'' (ex_to ''B'') new_router
     = (Returned (failure ''Sender agent not found in registry''), new_router)"
    using v [of "''Z''" "ex_to ''B''"] by (simp add: ex_registry5_get)
  have 2: "sendMessage always_delivers (\<lambda>n. 0) ex_registry5 1000 ''m-1'' ''e-1'' ''S'' (ex_to ''Z'') new_router
     = (Returned (failure ''Target agent not found: Z''), new_router)"
    using v [of "''S''" "ex_to ''Z''"] by (simp add: ex_registry5_get ex_to_def truthy_def)
  have 3: "sendMessage always_delivers (\<lambda>n. 0) ex_registry5 1000 ''m-1'' ''e-1'' ''S'' (ex_to ''F'') new_router
     = (Returned (failure ''Target agent does not accept messages: F''), new_router)"
    using v [of "''S''" "ex_to ''F''"]
    by (simp add: ex_registry5_get ex_to_def truthy_def agent_of_def)
  have 4: "sendMessage always_delivers (\<lambda>n. 0) ex_registry5 1000 ''m-1'' ''e-1'' ''S'' (ex_to ''E'') new_router
     = (Returned (failure ''Target agent is offline: E''), new_router)"
    using v [of "''S''" "ex_to ''E''"]
    by (simp add: ex_registry5_get ex_to_def truthy_def agent_of_def)
  have 5: "sendMessage always_delivers (\<lambda>n. 0) ex_registry5 1000 ''m-1'' ''e-1'' ''S''
       (ex_to_capability (Some ''deploy'')) new_router
     = (Returned (failure ''No agent found with capability: deploy''), new_router)"
    using v [of "''S''" "ex_to_capability (Some ''deploy'')"] nf
    by (simp add: ex_registry5_get ex_to_capability_def truthy_def)
  have 6: "sendMessage always_delivers (\<lambda>n. 0) ex_registry5 1000 ''m-1'' ''e-1'' ''S''
       (ex_to_capability None) new_router
     = (Returned (failure ''Must specify either toAgentId or toCapability''), new_router)"
    using v [of "''S''" "ex_to_capability None"]
    by (simp add: ex_registry5_get ex_to_capability_def truthy_def)
  from 1 2 3 4 5 6 show ?thesis by (intro conjI)
qed

theorem sendMessage_empty_target_counterexample:
  "toAgentId ex_empty_target = Some [] \<and> get ex_registry5 [] = None \<and>
   fst (sendMessage always_delivers (\<lambda>n. 0) ex_registry5 1000 ''m-1'' ''e-1'' ''S''
          ex_empty_target new_router)
     = Returned (failure ''Must specify either toAgentId or toCapability'') \<and>
   fst (sendMessage always_delivers (\<lambda>n. 0) ex_registry5 1000 ''m-1'' ''e-1'' ''S''
          ex_empty_target new_router)
     \<noteq> Returned (failure (''Target agent not found: '' @ []))"
  by (simp add: sendMessage_def sendMessage_begin_def resolve_target_def truthy_def
      ex_empty_target_def ex_registry5_get failure_def result_of_def)

section \<open>Effects of the closures and of the logging helpers\<close>

lemma promise_resolve_fields [simp]:
  "pendingMessages (promise_resolve mid v s) = pendingMessages s"
  "messageHistory (promise_resolve mid v s) = messageHistory s"
  "timeoutChecker (promise_resolve mid v s) = timeoutChecker s"
  "broadcasted (promise_resolve mid v s) = broadcasted s"
  "deliveries (promise_resolve mid v s) = deliveries s"
  "closureCalls (promise_resolve mid v s) = closureCalls s"
  by (simp_all add: promise_resolve_def split: promise.splits)

lemma promise_resolve_promises:
  "promises (promise_resolve mid v s) =
     (if promises s mid = Waiting then (promises s)(mid := Fulfilled v) else promises s)"
  by (simp add: promise_resolve_def split: promise.splits)

lemma Map_delete_mark_received: "Map_delete (mark_received mid m) mid = Map_delete m mid"
  by (induction m) (auto simp: Map_delete_def mark_received_def)

lemma pending_resolve_fields [simp]:
  "pendingMessages (pending_resolve p v s) = Map_delete (pendingMessages s) (p_messageId p)"
  "messageHistory (pending_resolve p v s) = messageHistory s"
  "timeoutChecker (pending_resolve p v s) = timeoutChecker s"
  "broadcasted (pending_resolve p v s) = broadcasted s"
  "deliveries (pending_resolve p v s) = deliveries s"
  "closureCalls (pending_resolve p v s) = closureCalls s @ [(p_messageId p, resolve_closure)]"
  by (simp_all add: pending_resolve_def Let_def Map_delete_mark_received)

lemma pending_reject_fields [simp]:
  "pendingMessages (pending_reject p e s) = Map_delete (pendingMessages s) (p_messageId p)"
  "messageHistory (pending_reject p e s) = messageHistory s"
  "timeoutChecker (pending_reject p e s) = timeoutChecker s"
  "broadcasted (pending_reject p e s) = broadcasted s"
  "deliveries (pending_reject p e s) = deliveries s"
  "closureCalls (pending_reject p e s) = closureCalls s @ [(p_messageId p, reject_closure)]"
  by (simp_all add: pending_reject_def Let_def)

lemma pending_resolve_promises:
  "promises (pending_resolve p v s) =
     (if promises s (p_messageId p) = Waiting
      then (promises s)(p_messageId p := Fulfilled v) else promises s)"
  by (simp add: pending_resolve_def Let_def promise_resolve_promises)

lemma pending_reject_promises:
  "promises (pending_reject p e s) =
     (if promises s (p_messageId p) = Waiting
      then (promises s)(p_messageId p := Fulfilled
             ((result_of False)\<lparr>messageId := Some (p_messageId p),
                targetAgentId := Some (p_toAgentId p), error := Some e\<rparr>))
      else promises s)"
  by (simp add: pending_reject_def Let_def promise_resolve_promises)

lemma addToHistory_fields [simp]:
  "pendingMessages (addToHistory ev s) = pendingMessages s"
  "timeoutChecker (addToHistory ev s) = timeoutChecker s"
  "broadcasted (addToHistory ev s) = broadcasted s"
  "deliveries (addToHistory ev s) = deliveries s"
  "closureCalls (addToHistory ev s) = closureCalls s"
  "promises (addToHistory ev s) = promises s"
  by (simp_all add: addToHistory_def Let_def)

lemma addToHistory_last: "last (messageHistory (addToHistory ev s)) = ev"
proof -
  have "last (tl (xs @ [ev])) = ev" if "length (xs @ [ev]) > maxHistorySize" for xs :: "event list"
  proof (cases xs)
    case Nil
    with that show ?thesis by (simp add: maxHistorySize_def)
  next
    case (Cons y ys)
    then show ?thesis by simp
  qed
  then show ?thesis by (simp add: addToHistory_def Let_def)
qed

lemma addToHistory_bounded:
  "length (messageHistory s) \<le> maxHistorySize \<Longrightarrow>
   length (messageHistory (addToHistory ev s)) \<le> maxHistorySize"
  by (simp add: addToHistory_def Let_def)

lemma broadcastEvent_fields [simp]:
  "pendingMessages (broadcastEvent ev s) = pendingMessages s"
  "messageHistory (broadcastEvent ev s) = messageHistory s"
  "timeoutChecker (broadcastEvent ev s) = timeoutChecker s"
  "broadcasted (broadcastEvent ev s) = broadcasted s @ [ev]"
  "deliveries (broadcastEvent ev s) = deliveries s"
  "closureCalls (broadcastEvent ev s) = closureCalls s"
  "promises (broadcastEvent ev s) = promises s"
  by (simp_all add: broadcastEvent_def)

lemma log_deliveries_fields [simp]:
  "pendingMessages (log_deliveries aid msg res s) = pendingMessages s"
  "messageHistory (log_deliveries aid msg res s) = messageHistory s"
  "timeoutChecker (log_deliveries aid msg res s) = timeoutChecker s"
  "broadcasted (log_deliveries aid msg res s) = broadcasted s"
  "deliveries (log_deliveries aid msg res s) = deliveries s @ replicate (fst (snd res)) (aid, msg)"
  "closureCalls (log_deliveries aid msg res s) = closureCalls s"
  "promises (log_deliveries aid msg res s) = promises s"
  by (simp_all add: log_deliveries_def)

section \<open>Properties of handleResponse\<close>

lemma handleResponse_begin_unknown:
  "get reg fromAgentId = None \<Longrightarrow>
   handleResponse_begin reg now eid did fromAgentId mid resp success err dat s =
     (Responded \<lparr>delivered = False, h_error = Some ''Responding agent not found in registry''\<rparr>, s)"
  by (simp add: handleResponse_begin_def)

lemma handleResponse_begin_no_pending:
  "get reg fromAgentId = Some fa \<Longrightarrow> Map_get (pendingMessages s) mid = None \<Longrightarrow>
   handleResponse_begin reg now eid did fromAgentId mid resp success err dat s =
     (Responded \<lparr>delivered = False,
         h_error = Some ''No pending message found (may have timed out)''\<rparr>,
      broadcastEvent (no_pending_event now eid fromAgentId fa mid resp success err dat)
        (addToHistory (no_pending_event now eid fromAgentId fa mid resp success err dat) s))"
  by (simp add: handleResponse_begin_def Let_def)

lemma handleResponse_consumes:
  assumes "get reg fromAgentId = Some fa" and "Map_get (pendingMessages s) mid = Some p"
    and "p_messageId p = mid"
  shows "Map_get (pendingMessages
           (snd (handleResponse d rnd reg now eid did fromAgentId mid resp success err dat s))) mid
         = None"
  using assms
  by (auto simp: handleResponse_def handleResponse_begin_def handleResponse_resume_def Let_def
      Map_get_Map_delete split: option.splits)

lemma handleResponse_not_pending:
  assumes "Map_get (pendingMessages s) mid = None"
  shows "\<not> delivered (fst (handleResponse d rnd reg now eid did fromAgentId mid resp success err dat s))
    \<and> h_error (fst (handleResponse d rnd reg now eid did fromAgentId mid resp success err dat s)) \<noteq> None
    \<and> promises (snd (handleResponse d rnd reg now eid did fromAgentId mid resp success err dat s))
        = promises s
    \<and> deliveries (snd (handleResponse d rnd reg now eid did fromAgentId mid resp success err dat s))
        = deliveries s
    \<and> pendingMessages (snd (handleResponse d rnd reg now eid did fromAgentId mid resp success err dat s))
        = pendingMessages s"
proof (cases "get reg fromAgentId")
  case None
  then show ?thesis by (simp add: handleResponse_def handleResponse_begin_unknown)
next
  case (Some fa)
  from handleResponse_begin_no_pending [OF Some assms] show ?thesis
    by (simp add: handleResponse_def)
qed

lemma ex_registry_get:
  "get ex_registry ''A'' = Some (agent_of ''A'' ''alpha'' idle 5 True)"
  "get ex_registry ''B'' = Some (agent_of ''B'' ''beta'' working 10 True)"
  "get ex_registry ''ghost'' = None"
  by (simp_all add: get_def Map_get_def ex_registry_def)

lemma early_sent_pending:
  "pendingMessages (snd early_sent) =
     [(''m-1'', \<lparr>p_messageId = ''m-1'', p_fromAgentId = ''A'', p_fromAgentName = ''alpha'',
         p_toAgentId = ''B'', p_toAgentName = ''beta'', p_sentAt = 1000, p_timeout = 5000,
         p_originalMessage = ''run suite'', p_deliveryAttempts = 1,
         p_responseReceived = False\<rparr>)]"
  by (simp add: early_sent_def sendMessage_begin_def resolve_target_def ex_registry_get
      ex_request_def truthy_def agent_of_def new_router_def Let_def)

text \<open>
  C7, as the code has it. When the responding agent is not registered,
  \<^verbatim>\<open>handleResponse\<close> returns \<^verbatim>\<open>delivered: false\<close> with an error text and leaves the
  router as it is, whether or not a pending message is stored under the message id:
  no delivery call, no event in the history, nothing passed to \<^verbatim>\<open>broadcastEvent\<close>.
  When the responding agent is registered and no pending message is stored under the
  message id, it returns \<^verbatim>\<open>delivered: false\<close> with an error text and calls the delivery
  callback for nothing; it appends to the history (which keeps its last 100 events) and
  passes to \<^verbatim>\<open>broadcastEvent\<close> one event of type \<^verbatim>\<open>agent_message_response\<close> with
  \<^verbatim>\<open>inResponseTo\<close> the message id, the responder's id and name as sender, an empty
  \<^verbatim>\<open>toAgentId\<close> and the response text, data, success flag and error of the call;
  nothing else changes. After a call that found the pending message of the id, any
  further call with the same id finds none: it returns \<^verbatim>\<open>delivered: false\<close> with an
  error text and leaves every promise as the first call left it.
\<close>

theorem handleResponse_not_delivered:
  "(get reg fromAgentId = None \<longrightarrow>
      handleResponse d rnd reg now eid did fromAgentId mid resp success err dat s =
        (\<lparr>delivered = False, h_error = Some ''Responding agent not found in registry''\<rparr>, s)) \<and>
   (\<forall>fa. get reg fromAgentId = Some fa \<and> Map_get (pendingMessages s) mid = None \<longrightarrow>
      handleResponse d rnd reg now eid did fromAgentId mid resp success err dat s =
        (\<lparr>delivered = False, h_error = Some ''No pending message found (may have timed out)''\<rparr>,
         broadcastEvent (no_pending_event now eid fromAgentId fa mid resp success err dat)
           (addToHistory (no_pending_event now eid fromAgentId fa mid resp success err dat) s))
      \<and> no_pending_event now eid fromAgentId fa mid resp success err dat =
          agent_message_response \<lparr>r_id = eid, r_timestamp = now, r_sessionId = fromAgentId,
            r_cwd = (case cwd fa of None \<Rightarrow> [] | Some c \<Rightarrow> c),
            r_fromAgentId = fromAgentId, r_fromAgentName = name fa, r_toAgentId = [],
            r_inResponseTo = mid, r_response = resp, r_data = dat, r_success = success,
            r_error = err\<rparr>
      \<and> messageHistory
           (snd (handleResponse d rnd reg now eid did fromAgentId mid resp success err dat s))
          = (if length (messageHistory s) < 100
             then messageHistory s
               @ [no_pending_event now eid fromAgentId fa mid resp success err dat]
             else tl (messageHistory s
               @ [no_pending_event now eid fromAgentId fa mid resp success err dat]))
      \<and> last (messageHistory
           (snd (handleResponse d rnd reg now eid did fromAgentId mid resp success err dat s)))
          = no_pending_event now eid fromAgentId fa mid resp success err dat
      \<and> broadcasted (snd (handleResponse d rnd reg now eid did fromAgentId mid resp success err dat s))
          = broadcasted s @ [no_pending_event now eid fromAgentId fa mid resp success err dat]
      \<and> deliveries (snd (handleResponse d rnd reg now eid did fromAgentId mid resp success err dat s))
          = deliveries s
      \<and> promises (snd (handleResponse d rnd reg now eid did fromAgentId mid resp success err dat s))
          = promises s
      \<and> pendingMessages
           (snd (handleResponse d rnd reg now eid did fromAgentId mid resp success err dat s))
          = pendingMessages s) \<and>
   (\<forall>fa p. get reg fromAgentId = Some fa \<and> Map_get (pendingMessages s) mid = Some p
        \<and> p_messageId p = mid \<longrightarrow>
      \<not> Map_has (pendingMessages
           (snd (handleResponse d rnd reg now eid did fromAgentId mid resp success err dat s))) mid
      \<and> \<not> delivered (fst (handleResponse d2 rnd2 reg2 now2 eid2 did2 from2 mid resp2 success2 err2 dat2
           (snd (handleResponse d rnd reg now eid did fromAgentId mid resp success err dat s))))
      \<and> h_error (fst (handleResponse d2 rnd2 reg2 now2 eid2 did2 from2 mid resp2 success2 err2 dat2
           (snd (handleResponse d rnd reg now eid did fromAgentId mid resp success err dat s))))
          \<noteq> None
      \<and> promises (snd (handleResponse d2 rnd2 reg2 now2 eid2 did2 from2 mid resp2 success2 err2 dat2
           (snd (handleResponse d rnd reg now eid did fromAgentId mid resp success err dat s))))
          = promises (snd (handleResponse d rnd reg now eid did fromAgentId mid resp success err dat s))
      \<and> deliveries (snd (handleResponse d2 rnd2 reg2 now2 eid2 did2 from2 mid resp2 success2 err2 dat2
           (snd (handleResponse d rnd reg now eid did fromAgentId mid resp success err dat s))))
          = deliveries (snd (handleResponse d rnd reg now eid did fromAgentId mid resp success err dat s)))"
proof (intro conjI allI impI)
  assume "get reg fromAgentId = None"
  then show "handleResponse d rnd reg now eid did fromAgentId mid resp success err dat s =
        (\<lparr>delivered = False, h_error = Some ''Responding agent not found in registry''\<rparr>, s)"
    by (simp add: handleResponse_def handleResponse_begin_unknown)
next
  fix fa
  assume a: "get reg fromAgentId = Some fa \<and> Map_get (pendingMessages s) mid = None"
  let ?ev = "no_pending_event now eid fromAgentId fa mid resp success err dat"
  from a have g: "get reg fromAgentId = Some fa"
    and m: "Map_get (pendingMessages s) mid = None"
    by simp_all
  have b: "handleResponse_begin reg now eid did fromAgentId mid resp success err dat s =
     (Responded \<lparr>delivered = False,
         h_error = Some ''No pending message found (may have timed out)''\<rparr>,
      broadcastEvent ?ev (addToHistory ?ev s))"
    using g m by (rule handleResponse_begin_no_pending)
  then show r: "handleResponse d rnd reg now eid did fromAgentId mid resp success err dat s =
        (\<lparr>delivered = False, h_error = Some ''No pending message found (may have timed out)''\<rparr>,
         broadcastEvent ?ev (addToHistory ?ev s))"
    by (simp add: handleResponse_def)
  show "?ev = agent_message_response \<lparr>r_id = eid, r_timestamp = now, r_sessionId = fromAgentId,
            r_cwd = (case cwd fa of None \<Rightarrow> [] | Some c \<Rightarrow> c),
            r_fromAgentId = fromAgentId, r_fromAgentName = name fa, r_toAgentId = [],
            r_inResponseTo = mid, r_response = resp, r_data = dat, r_success = success,
            r_error = err\<rparr>"
    by (simp add: no_pending_event_def)
  show "messageHistory
           (snd (handleResponse d rnd reg now eid did fromAgentId mid resp success err dat s))
          = (if length (messageHistory s) < 100 then messageHistory s @ [?ev]
             else tl (messageHistory s @ [?ev]))"
    unfolding r by (simp add: addToHistory_def Let_def maxHistorySize_def)
  show "last (messageHistory
           (snd (handleResponse d rnd reg now eid did fromAgentId mid resp success err dat s))) = ?ev"
    unfolding r by (simp add: addToHistory_last)
  show "broadcasted (snd (handleResponse d rnd reg now eid did fromAgentId mid resp success err dat s))
          = broadcasted s @ [?ev]"
    unfolding r by simp
  show "deliveries (snd (handleResponse d rnd reg now eid did fromAgentId mid resp success err dat s))
          = deliveries s"
    unfolding r by simp
  show "promises (snd (handleResponse d rnd reg now eid did fromAgentId mid resp success err dat s))
          = promises s"
    unfolding r by simp
  show "pendingMessages
           (snd (handleResponse d rnd reg now eid did fromAgentId mid resp success err dat s))
          = pendingMessages s"
    unfolding r by simp
next
  fix fa p
  assume a: "get reg fromAgentId = Some fa \<and> Map_get (pendingMessages s) mid = Some p
        \<and> p_messageId p = mid"
  let ?s1 = "snd (handleResponse d rnd reg now eid did fromAgentId mid resp success err dat s)"
  from a have g: "get reg fromAgentId = Some fa"
    and m: "Map_get (pendingMessages s) mid = Some p" and k: "p_messageId p = mid"
    by simp_all
  have n: "Map_get (pendingMessages ?s1) mid = None"
    using g m k by (rule handleResponse_consumes)
  then show "\<not> Map_has (pendingMessages ?s1) mid" by (simp add: Map_has_def)
  note second = handleResponse_not_pending [OF n, of d2 rnd2 reg2 now2 eid2 did2 from2 resp2 success2 err2 dat2]
  from second show "\<not> delivered (fst (handleResponse d2 rnd2 reg2 now2 eid2 did2 from2 mid resp2 success2 err2 dat2 ?s1))"
    by (rule conjunct1)
  from second show "h_error (fst (handleResponse d2 rnd2 reg2 now2 eid2 did2 from2 mid resp2 success2 err2 dat2 ?s1)) \<noteq> None"
    by (elim conjE)
  from second show "promises (snd (handleResponse d2 rnd2 reg2 now2 eid2 did2 from2 mid resp2 success2 err2 dat2 ?s1))
          = promises ?s1"
    by (elim conjE)
  from second show "deliveries (snd (handleResponse d2 rnd2 reg2 now2 eid2 did2 from2 mid resp2 success2 err2 dat2 ?s1))
          = deliveries ?s1"
    by (elim conjE)
qed

theorem handleResponse_not_delivered_witness:
  "handleResponse always_delivers (\<lambda>n. 0) ex_registry 1200 ''e-2'' ''d-2'' ''ghost'' ''m-1''
       ''42 passed'' True None None (snd early_sent)
     = (\<lparr>delivered = False, h_error = Some ''Responding agent not found in registry''\<rparr>,
        snd early_sent) \<and>
   fst (handleResponse always_delivers (\<lambda>n. 0) ex_registry 1200 ''e-2'' ''d-2'' ''B'' ''m-7''
       ''42 passed'' True None None (snd early_sent))
     = \<lparr>delivered = False, h_error = Some ''No pending message found (may have timed out)''\<rparr> \<and>
   fst (handleResponse always_delivers (\<lambda>n. 0) ex_registry 1200 ''e-2'' ''d-2'' ''B'' ''m-1''
       ''42 passed'' True None None (snd early_sent))
     = \<lparr>delivered = True, h_error = None\<rparr> \<and>
   \<not> delivered (fst (handleResponse always_delivers (\<lambda>n. 0) ex_registry 1400 ''e-3'' ''d-3'' ''B'' ''m-1''
       ''again'' True None None
       (snd (handleResponse always_delivers (\<lambda>n. 0) ex_registry 1200 ''e-2'' ''d-2'' ''B'' ''m-1''
          ''42 passed'' True None None (snd early_sent)))))"
proof -
  have np: "Map_get (pendingMessages (snd early_sent)) ''m-7'' = None"
    by (simp add: early_sent_pending Map_get_def)
  have pp: "Map_get (pendingMessages (snd early_sent)) ''m-1'' =
     Some \<lparr>p_messageId = ''m-1'', p_fromAgentId = ''A'', p_fromAgentName = ''alpha'',
         p_toAgentId = ''B'', p_toAgentName = ''beta'', p_sentAt = 1000, p_timeout = 5000,
         p_originalMessage = ''run suite'', p_deliveryAttempts = 1,
         p_responseReceived = False\<rparr>"
    by (simp add: early_sent_pending Map_get_def)
  have 1: "handleResponse always_delivers (\<lambda>n. 0) ex_registry 1200 ''e-2'' ''d-2'' ''ghost'' ''m-1''
       ''42 passed'' True None None (snd early_sent)
     = (\<lparr>delivered = False, h_error = Some ''Responding agent not found in registry''\<rparr>,
        snd early_sent)"
    using handleResponse_not_delivered [of ex_registry "''ghost''" always_delivers "\<lambda>n. 0" 1200
        "''e-2''" "''d-2''" "''m-1''" "''42 passed''" True None None "snd early_sent"]
    by (simp add: ex_registry_get)
  have 2: "fst (handleResponse always_delivers (\<lambda>n. 0) ex_registry 1200 ''e-2'' ''d-2'' ''B'' ''m-7''
       ''42 passed'' True None None (snd early_sent))
     = \<lparr>delivered = False, h_error = Some ''No pending message found (may have timed out)''\<rparr>"
    using handleResponse_not_delivered [of ex_registry "''B''" always_delivers "\<lambda>n. 0" 1200
        "''e-2''" "''d-2''" "''m-7''" "''42 passed''" True None None "snd early_sent"] np
    by (simp add: ex_registry_get)
  have 3: "fst (handleResponse always_delivers (\<lambda>n. 0) ex_registry 1200 ''e-2'' ''d-2'' ''B'' ''m-1''
       ''42 passed'' True None None (snd early_sent))
     = \<lparr>delivered = True, h_error = None\<rparr>"
    by (simp add: handleResponse_def handleResponse_begin_def handleResponse_resume_def pp
        ex_registry_get Let_def deliverWithRetry_success always_delivers_def)
  have 4: "\<not> delivered (fst (handleResponse always_delivers (\<lambda>n. 0) ex_registry 1400 ''e-3'' ''d-3'' ''B'' ''m-1''
       ''again'' True None None
       (snd (handleResponse always_delivers (\<lambda>n. 0) ex_registry 1200 ''e-2'' ''d-2'' ''B'' ''m-1''
          ''42 passed'' True None None (snd early_sent)))))"
    using handleResponse_not_delivered [of ex_registry "''B''" always_delivers "\<lambda>n. 0" 1200
        "''e-2''" "''d-2''" "''m-1''" "''42 passed''" True None None "snd early_sent"
        always_delivers "\<lambda>n. 0" ex_registry 1400 "''e-3''" "''d-3''" "''B''" "''again''" True None None] pp
    by (simp add: ex_registry_get)
  from 1 2 3 4 show ?thesis by (intro conjI)
qed

theorem handleResponse_unknown_responder_counterexample:
  "get ex_registry ''ghost'' = None \<and>
   Map_get (pendingMessages new_router) ''m-1'' = None \<and>
   handleResponse always_delivers (\<lambda>n. 0) ex_registry 1200 ''e-2'' ''d-2'' ''ghost'' ''m-1''
       ''42 passed'' True None None new_router
     = (\<lparr>delivered = False, h_error = Some ''Responding agent not found in registry''\<rparr>,
        new_router) \<and>
   messageHistory (snd (handleResponse always_delivers (\<lambda>n. 0) ex_registry 1200 ''e-2'' ''d-2''
       ''ghost'' ''m-1'' ''42 passed'' True None None new_router)) = [] \<and>
   broadcasted (snd (handleResponse always_delivers (\<lambda>n. 0) ex_registry 1200 ''e-2'' ''d-2''
       ''ghost'' ''m-1'' ''42 passed'' True None None new_router)) = []"
proof -
  have r: "handleResponse always_delivers (\<lambda>n. 0) ex_registry 1200 ''e-2'' ''d-2'' ''ghost'' ''m-1''
       ''42 passed'' True None None new_router
     = (\<lparr>delivered = False, h_error = Some ''Responding agent not found in registry''\<rparr>,
        new_router)"
    by (simp add: handleResponse_def handleResponse_begin_def ex_registry_get)
  have p: "Map_get (pendingMessages new_router) ''m-1'' = None"
    by (simp add: new_router_def Map_get_def)
  have h: "messageHistory new_router = []" "broadcasted new_router = []"
    by (simp_all add: new_router_def)
  from r p h ex_registry_get(3) show ?thesis by simp
qed

section \<open>Properties of broadcast\<close>

lemma deliverWithRetry_attempts_pos: "1 \<le> fst (snd (deliverWithRetry d rnd aid msg attempt))"
  by (subst deliverWithRetry.simps) (simp add: Let_def split: option.splits)

lemma count_delivery_fields:
  "sent (count_delivery c r) = (if fst r = None then sent c + 1 else sent c)"
  "failed (count_delivery c r) = (if fst r = None then failed c else failed c + 1)"
  by (simp_all add: count_delivery_def split: option.splits)

lemma foldl_count_delivery:
  "sent (foldl count_delivery c rs) = sent c + length (filter (\<lambda>r. fst r = None) rs) \<and>
   failed (foldl count_delivery c rs) = failed c + length (filter (\<lambda>r. fst r \<noteq> None) rs)"
proof (induction rs arbitrary: c)
  case Nil
  then show ?case by simp
next
  case (Cons r rs)
  show ?case
    by (simp add: Cons.IH count_delivery_fields)
qed

lemma foldl_log_deliveries:
  "deliveries (foldl (\<lambda>st ch. log_deliveries (fst ch) ev (snd ch) st) s chs) =
     deliveries s @ concat (map (\<lambda>ch. replicate (fst (snd (snd ch))) (fst ch, ev)) chs) \<and>
   pendingMessages (foldl (\<lambda>st ch. log_deliveries (fst ch) ev (snd ch) st) s chs)
     = pendingMessages s \<and>
   closureCalls (foldl (\<lambda>st ch. log_deliveries (fst ch) ev (snd ch) st) s chs)
     = closureCalls s \<and>
   promises (foldl (\<lambda>st ch. log_deliveries (fst ch) ev (snd ch) st) s chs) = promises s \<and>
   messageHistory (foldl (\<lambda>st ch. log_deliveries (fst ch) ev (snd ch) st) s chs)
     = messageHistory s \<and>
   broadcasted (foldl (\<lambda>st ch. log_deliveries (fst ch) ev (snd ch) st) s chs)
     = broadcasted s"
  by (induction chs arbitrary: s) simp_all

lemma fst_set_concat_replicate:
  "\<forall>t. 0 < n t \<Longrightarrow> fst ` set (concat (map (\<lambda>t. replicate (n t) (f t, e)) ts)) = f ` set ts"
proof (induction ts)
  case Nil
  then show ?case by simp
next
  case (Cons t ts)
  from Cons.prems have "n t \<noteq> 0" by (metis less_numeral_extra(3))
  then have "set (replicate (n t) (f t, e)) = {(f t, e)}" by (simp add: set_replicate_conv_if)
  with Cons show ?case by simp
qed

lemma broadcast_targets_eq:
  "broadcast_targets reg fromAgentId =
     filter (\<lambda>a. acceptsMessages a \<and> status a \<noteq> offline \<and> agentId a \<noteq> fromAgentId) (getAll reg)"
  by (auto simp: broadcast_targets_def getMessageableAgents_def intro: filter_cong)

lemma broadcast_result:
  "get reg fromAgentId = Some fa \<Longrightarrow>
   fst (broadcast d rnd reg now eid fromAgentId channel msg dat s) =
     foldl count_delivery \<lparr>sent = 0, failed = 0\<rparr>
       (map (\<lambda>t. deliverWithRetry d (rnd (agentId t)) (agentId t)
               (make_broadcast now eid fromAgentId fa channel msg dat) 1)
          (broadcast_targets reg fromAgentId))"
  by (simp add: broadcast_def Let_def comp_def)

lemma ex_registry5_targets:
  "broadcast_targets ex_registry5 ''S'' =
     [agent_of ''B'' ''beta'' working 10 True, agent_of ''C'' ''gamma'' idle 8 True,
      agent_of ''D'' ''delta'' waiting 3 True]"
  by (simp add: broadcast_targets_def getMessageableAgents_def getAll_def Map_values_def
      ex_registry5_def agent_of_def)

lemma broadcast_example:
  "fst (broadcast (fails_for ''C'') (\<lambda>a n. 0) ex_registry5 1000 ''e-9'' ''S'' ''general''
          ''status?'' (Some (JObj [])) new_router) = \<lparr>sent = 2, failed = 1\<rparr>"
proof -
  have ok: "deliverWithRetry (fails_for ''C'') r aid ev 1 = (None, 1, [])" if "aid \<noteq> ''C''"
    for r aid ev
    using that by (intro deliverWithRetry_success) (simp add: fails_for_def)
  have ko: "fst (deliverWithRetry (fails_for ''C'') r ''C'' ev 1) = Some (Error ''unreachable'')"
    for r ev
    by (subst deliverWithRetry_three_failures) (simp_all add: fails_for_def)
  have s: "get ex_registry5 ''S'' = Some (agent_of ''S'' ''sender'' idle 1 True)"
    by (simp add: get_def Map_get_def ex_registry5_def)
  have a: "agentId (agent_of i n st t acc) = i" for i n st t acc
    by (simp add: agent_of_def)
  show ?thesis
    unfolding broadcast_result [OF s] ex_registry5_targets
    by (simp add: a ok ko count_delivery_def del: One_nat_def)
qed

text \<open>
  C8. For an unknown sender \<^verbatim>\<open>broadcast\<close> returns \<^verbatim>\<open>{sent: 0, failed: 0}\<close> and leaves the
  router as it is. For a known sender the targets are the registered agents that accept
  messages, are not offline and are not the sender; every target gets its own retry
  chain, whatever the other chs do, so the delivery callback is called for every
  target (at least once) and for nobody else; \<^verbatim>\<open>sent\<close> counts the targets whose chain
  succeeds, \<^verbatim>\<open>failed\<close> those whose chain fails, and the two add up to the number of
  targets. With three targets, one of which cannot be reached, the result is
  \<^verbatim>\<open>{sent: 2, failed: 1}\<close>.
\<close>

theorem broadcast_counts:
  "(get reg fromAgentId = None \<longrightarrow>
      broadcast d rnd reg now eid fromAgentId channel msg dat s = (\<lparr>sent = 0, failed = 0\<rparr>, s)) \<and>
   broadcast_targets reg fromAgentId =
     filter (\<lambda>a. acceptsMessages a \<and> status a \<noteq> offline \<and> agentId a \<noteq> fromAgentId) (getAll reg) \<and>
   (\<forall>fa. get reg fromAgentId = Some fa \<longrightarrow>
      sent (fst (broadcast d rnd reg now eid fromAgentId channel msg dat s))
        + failed (fst (broadcast d rnd reg now eid fromAgentId channel msg dat s))
        = length (broadcast_targets reg fromAgentId)
      \<and> sent (fst (broadcast d rnd reg now eid fromAgentId channel msg dat s))
        = length (filter (\<lambda>t. fst (deliverWithRetry d (rnd (agentId t)) (agentId t)
              (make_broadcast now eid fromAgentId fa channel msg dat) 1) = None)
            (broadcast_targets reg fromAgentId))
      \<and> failed (fst (broadcast d rnd reg now eid fromAgentId channel msg dat s))
        = length (filter (\<lambda>t. fst (deliverWithRetry d (rnd (agentId t)) (agentId t)
              (make_broadcast now eid fromAgentId fa channel msg dat) 1) \<noteq> None)
            (broadcast_targets reg fromAgentId))
      \<and> deliveries (snd (broadcast d rnd reg now eid fromAgentId channel msg dat s))
        = deliveries s @ concat (map (\<lambda>t.
            replicate (fst (snd (deliverWithRetry d (rnd (agentId t)) (agentId t)
                (make_broadcast now eid fromAgentId fa channel msg dat) 1)))
              (agentId t, make_broadcast now eid fromAgentId fa channel msg dat))
            (broadcast_targets reg fromAgentId))
      \<and> fst ` set (drop (length (deliveries s))
            (deliveries (snd (broadcast d rnd reg now eid fromAgentId channel msg dat s))))
        = agentId ` set (broadcast_targets reg fromAgentId)) \<and>
   fst (broadcast (fails_for ''C'') (\<lambda>a n. 0) ex_registry5 1000 ''e-9'' ''S'' ''general''
          ''status?'' (Some (JObj [])) new_router) = \<lparr>sent = 2, failed = 1\<rparr>"
proof (intro conjI allI impI)
  assume "get reg fromAgentId = None"
  then show "broadcast d rnd reg now eid fromAgentId channel msg dat s = (\<lparr>sent = 0, failed = 0\<rparr>, s)"
    by (simp add: broadcast_def)
next
  show "broadcast_targets reg fromAgentId =
     filter (\<lambda>a. acceptsMessages a \<and> status a \<noteq> offline \<and> agentId a \<noteq> fromAgentId) (getAll reg)"
    by (rule broadcast_targets_eq)
next
  show "fst (broadcast (fails_for ''C'') (\<lambda>a n. 0) ex_registry5 1000 ''e-9'' ''S'' ''general''
          ''status?'' (Some (JObj [])) new_router) = \<lparr>sent = 2, failed = 1\<rparr>"
    by (rule broadcast_example)
next
  fix fa
  assume g: "get reg fromAgentId = Some fa"
  let ?ev = "make_broadcast now eid fromAgentId fa channel msg dat"
  let ?ts = "broadcast_targets reg fromAgentId"
  let ?chain = "\<lambda>t. deliverWithRetry d (rnd (agentId t)) (agentId t) ?ev 1"
  let ?B = "broadcast d rnd reg now eid fromAgentId channel msg dat s"
  have res: "fst ?B = foldl count_delivery \<lparr>sent = 0, failed = 0\<rparr> (map ?chain ?ts)"
    using g by (rule broadcast_result)
  have st: "snd ?B = foldl (\<lambda>st ch. log_deliveries (fst ch) ?ev (snd ch) st)
      (broadcastEvent ?ev (addToHistory ?ev s)) (map (\<lambda>t. (agentId t, ?chain t)) ?ts)"
    by (simp add: broadcast_def g Let_def)
  show sn: "sent (fst ?B) = length (filter (\<lambda>t. fst (?chain t) = None) ?ts)"
    unfolding res using foldl_count_delivery [of "\<lparr>sent = 0, failed = 0\<rparr>" "map ?chain ?ts"]
    by (simp add: filter_map comp_def)
  show fl: "failed (fst ?B) = length (filter (\<lambda>t. fst (?chain t) \<noteq> None) ?ts)"
    unfolding res using foldl_count_delivery [of "\<lparr>sent = 0, failed = 0\<rparr>" "map ?chain ?ts"]
    by (simp add: filter_map comp_def)
  show "sent (fst ?B) + failed (fst ?B) = length ?ts"
    unfolding sn fl using sum_length_filter_compl [of "\<lambda>t. fst (?chain t) = None" ?ts] by simp
  show dl: "deliveries (snd ?B) = deliveries s
      @ concat (map (\<lambda>t. replicate (fst (snd (?chain t))) (agentId t, ?ev)) ?ts)"
    unfolding st by (simp add: foldl_log_deliveries comp_def)
  have pos: "\<forall>t. 0 < fst (snd (?chain t))"
  proof
    fix t
    show "0 < fst (snd (?chain t))"
      using deliverWithRetry_attempts_pos [of d "rnd (agentId t)" "agentId t" ?ev 1] by simp
  qed
  have "fst ` set (concat (map (\<lambda>t. replicate (fst (snd (?chain t))) (agentId t, ?ev)) ?ts))
      = agentId ` set ?ts"
    using pos by (rule fst_set_concat_replicate)
  then show "fst ` set (drop (length (deliveries s)) (deliveries (snd ?B))) = agentId ` set ?ts"
    unfolding dl by simp
qed

theorem broadcast_counts_witness:
  "get ex_registry5 ''S'' = Some (agent_of ''S'' ''sender'' idle 1 True) \<and>
   map agentId (broadcast_targets ex_registry5 ''S'') = [''B'', ''C'', ''D''] \<and>
   sent (fst (broadcast (fails_for ''C'') (\<lambda>a n. 0) ex_registry5 1000 ''e-9'' ''S'' ''general''
          ''status?'' (Some (JObj [])) new_router))
     + failed (fst (broadcast (fails_for ''C'') (\<lambda>a n. 0) ex_registry5 1000 ''e-9'' ''S'' ''general''
          ''status?'' (Some (JObj [])) new_router)) = 3 \<and>
   get ex_registry5 ''Z'' = None \<and>
   broadcast (fails_for ''C'') (\<lambda>a n. 0) ex_registry5 1000 ''e-9'' ''Z'' ''general''
          ''status?'' (Some (JObj [])) new_router = (\<lparr>sent = 0, failed = 0\<rparr>, new_router)"
proof -
  have t: "map agentId (broadcast_targets ex_registry5 ''S'') = [''B'', ''C'', ''D'']"
    by (simp add: ex_registry5_targets agent_of_def)
  have l: "length (broadcast_targets ex_registry5 ''S'') = 3"
    by (simp add: ex_registry5_targets)
  note b = broadcast_counts [of ex_registry5 _ "fails_for ''C''" "\<lambda>a n. 0" 1000 "''e-9''"
      "''general''" "''status?''" "Some (JObj [])" new_router]
  have 1: "sent (fst (broadcast (fails_for ''C'') (\<lambda>a n. 0) ex_registry5 1000 ''e-9'' ''S'' ''general''
          ''status?'' (Some (JObj [])) new_router))
     + failed (fst (broadcast (fails_for ''C'') (\<lambda>a n. 0) ex_registry5 1000 ''e-9'' ''S'' ''general''
          ''status?'' (Some (JObj [])) new_router)) = 3"
    using b [of "''S''"] l by (simp add: ex_registry5_get)
  have 2: "broadcast (fails_for ''C'') (\<lambda>a n. 0) ex_registry5 1000 ''e-9'' ''Z'' ''general''
          ''status?'' (Some (JObj [])) new_router = (\<lparr>sent = 0, failed = 0\<rparr>, new_router)"
    using b [of "''Z''"] by (simp add: ex_registry5_get)
  from t 1 2 show ?thesis by (simp add: ex_registry5_get)
qed

section \<open>The pending map under the router steps\<close>

lemma keys_Map_delete: "fst ` set (Map_delete m k) = fst ` set m - {k}"
  by (auto simp: Map_delete_def)

lemma keys_Map_set: "fst ` set (Map_set m k v) = insert k (fst ` set m)"
  by (induction m) force+

lemma keyed_Map_delete: "keyed_by_id m \<Longrightarrow> keyed_by_id (Map_delete m k)"
  by (simp add: keyed_by_id_def Map_delete_def list_all_iff)

lemma keyed_Map_set: "keyed_by_id m \<Longrightarrow> p_messageId v = k \<Longrightarrow> keyed_by_id (Map_set m k v)"
  by (induction m) (auto simp: keyed_by_id_def)

lemma keyed_Map_get: "keyed_by_id m \<Longrightarrow> Map_get m k = Some p \<Longrightarrow> p_messageId p = k"
  by (auto simp: keyed_by_id_def Map_get_def list_all_iff dest!: map_of_SomeD)

lemma Map_get_Some_key: "Map_get m k = Some p \<Longrightarrow> k \<in> fst ` set m"
  unfolding Map_get_def by (metis map_of_SomeD fst_conv image_eqI)

lemma sweep_entry_fields [simp]:
  "messageHistory (sweep_entry sec now s kv) = messageHistory s"
  "timeoutChecker (sweep_entry sec now s kv) = timeoutChecker s"
  "broadcasted (sweep_entry sec now s kv) = broadcasted s"
  "deliveries (sweep_entry sec now s kv) = deliveries s"
  by (simp_all add: sweep_entry_def Let_def)

lemma sweep_entry_effect:
  "pendingMessages (sweep_entry sec now s kv) =
     (if now - p_sentAt (snd kv) > p_timeout (snd kv)
      then Map_delete (Map_delete (pendingMessages s) (p_messageId (snd kv))) (fst kv)
      else pendingMessages s)"
  "closureCalls (sweep_entry sec now s kv) =
     (if now - p_sentAt (snd kv) > p_timeout (snd kv)
      then closureCalls s @ [(p_messageId (snd kv), reject_closure)]
      else closureCalls s)"
  "promises (sweep_entry sec now s kv) =
     (if now - p_sentAt (snd kv) > p_timeout (snd kv)
      then promises (pending_reject (snd kv) (timeout_message sec (snd kv)) s)
      else promises s)"
  by (simp_all add: sweep_entry_def Let_def)

lemma sweep_fold_calls:
  "keyed_by_id kvs \<Longrightarrow>
   closureCalls (foldl (sweep_entry sec now) s kvs) =
     closureCalls s @ map (\<lambda>kv. (fst kv, reject_closure))
       (filter (\<lambda>kv. now - p_sentAt (snd kv) > p_timeout (snd kv)) kvs)"
proof (induction kvs arbitrary: s)
  case Nil
  then show ?case by simp
next
  case (Cons kv kvs)
  from Cons.prems have k: "p_messageId (snd kv) = fst kv" and ks: "keyed_by_id kvs"
    by (simp_all add: keyed_by_id_def)
  show ?case
    by (simp add: Cons.IH [OF ks] sweep_entry_effect k)
qed

lemma sweep_fold_keys:
  "keyed_by_id kvs \<Longrightarrow>
   fst ` set (pendingMessages (foldl (sweep_entry sec now) s kvs)) =
     fst ` set (pendingMessages s)
       - fst ` set (filter (\<lambda>kv. now - p_sentAt (snd kv) > p_timeout (snd kv)) kvs)"
proof (induction kvs arbitrary: s)
  case Nil
  then show ?case by simp
next
  case (Cons kv kvs)
  from Cons.prems have k: "p_messageId (snd kv) = fst kv" and ks: "keyed_by_id kvs"
    by (simp_all add: keyed_by_id_def)
  show ?case
  proof (cases "now - p_sentAt (snd kv) > p_timeout (snd kv)")
    case True
    then have "fst ` set (pendingMessages (sweep_entry sec now s kv))
        = fst ` set (pendingMessages s) - {fst kv}"
      by (simp add: sweep_entry_effect k keys_Map_delete)
    with True show ?thesis by (simp add: Cons.IH [OF ks]) blast
  next
    case False
    then show ?thesis by (simp add: Cons.IH [OF ks] sweep_entry_effect)
  qed
qed

lemma sweep_fold_keyed:
  "keyed_by_id (pendingMessages s) \<Longrightarrow>
   keyed_by_id (pendingMessages (foldl (sweep_entry sec now) s kvs))"
proof (induction kvs arbitrary: s)
  case Nil
  then show ?case by simp
next
  case (Cons kv kvs)
  have "keyed_by_id (pendingMessages (sweep_entry sec now s kv))"
    using Cons.prems by (simp add: sweep_entry_effect keyed_Map_delete)
  then show ?case by (simp add: Cons.IH)
qed

lemma sweep_fold_promises:
  "keyed_by_id kvs \<Longrightarrow> mid \<notin> fst ` set kvs \<Longrightarrow>
   promises (foldl (sweep_entry sec now) s kvs) mid = promises s mid"
proof (induction kvs arbitrary: s)
  case Nil
  then show ?case by simp
next
  case (Cons kv kvs)
  from Cons.prems have k: "p_messageId (snd kv) = fst kv" and ks: "keyed_by_id kvs"
    and m: "mid \<noteq> fst kv" and ms: "mid \<notin> fst ` set kvs"
    by (auto simp: keyed_by_id_def)
  have "promises (sweep_entry sec now s kv) mid = promises s mid"
    using m k by (simp add: sweep_entry_effect pending_reject_promises)
  then show ?case by (simp add: Cons.IH [OF ks ms])
qed

lemma reject_fold:
  "closureCalls (foldl (\<lambda>st kv. pending_reject (snd kv) e st) s kvs)
     = closureCalls s @ map (\<lambda>kv. (p_messageId (snd kv), reject_closure)) kvs
   \<and> (\<forall>mid. mid \<notin> p_messageId ` snd ` set kvs
        \<longrightarrow> promises (foldl (\<lambda>st kv. pending_reject (snd kv) e st) s kvs) mid = promises s mid)
   \<and> messageHistory (foldl (\<lambda>st kv. pending_reject (snd kv) e st) s kvs) = messageHistory s
   \<and> broadcasted (foldl (\<lambda>st kv. pending_reject (snd kv) e st) s kvs) = broadcasted s
   \<and> deliveries (foldl (\<lambda>st kv. pending_reject (snd kv) e st) s kvs) = deliveries s
   \<and> timeoutChecker (foldl (\<lambda>st kv. pending_reject (snd kv) e st) s kvs) = timeoutChecker s"
  by (induction kvs arbitrary: s) (simp_all add: pending_reject_promises)

lemma checkTimeouts_effect:
  assumes "keyed_by_id (pendingMessages s)"
  shows "closureCalls (checkTimeouts sec now s) =
      closureCalls s @ map (\<lambda>kv. (fst kv, reject_closure))
        (filter (\<lambda>kv. now - p_sentAt (snd kv) > p_timeout (snd kv)) (pendingMessages s))"
    and "fst ` set (pendingMessages (checkTimeouts sec now s)) =
      fst ` set (pendingMessages s)
        - fst ` set (filter (\<lambda>kv. now - p_sentAt (snd kv) > p_timeout (snd kv))
                      (pendingMessages s))"
    and "keyed_by_id (pendingMessages (checkTimeouts sec now s))"
    and "mid \<notin> fst ` set (pendingMessages s)
      \<Longrightarrow> promises (checkTimeouts sec now s) mid = promises s mid"
  unfolding checkTimeouts_def
  using assms
  by (simp_all add: sweep_fold_calls sweep_fold_keys sweep_fold_keyed sweep_fold_promises)

lemma clearPending_effect:
  "pendingMessages (clearPending s) = []"
  "closureCalls (clearPending s)
     = closureCalls s @ map (\<lambda>kv. (p_messageId (snd kv), reject_closure)) (pendingMessages s)"
  "mid \<notin> p_messageId ` snd ` set (pendingMessages s)
     \<Longrightarrow> promises (clearPending s) mid = promises s mid"
  using reject_fold [of "''Router cleared''" s "pendingMessages s"]
  by (simp_all add: clearPending_def)

lemma keyed_ids: "keyed_by_id m \<Longrightarrow> p_messageId ` snd ` set m = fst ` set m"
  by (force simp: keyed_by_id_def list_all_iff image_iff)

lemma sendMessage_begin_effect:
  "closureCalls (snd (sendMessage_begin reg now mid eid fromAgentId request s)) = closureCalls s"
  "promises (snd (sendMessage_begin reg now mid eid fromAgentId request s)) = promises s"
  by (auto simp: sendMessage_begin_def Let_def split: option.splits sum.splits prod.splits)

lemma sendMessage_begin_pending:
  "pendingMessages (snd (sendMessage_begin reg now mid eid fromAgentId request s)) = pendingMessages s
   \<or> (\<exists>p. p_messageId p = mid
         \<and> pendingMessages (snd (sendMessage_begin reg now mid eid fromAgentId request s))
             = Map_set (pendingMessages s) mid p)"
proof (cases "get reg fromAgentId")
  case None
  then show ?thesis by (simp add: sendMessage_begin_def)
next
  case (Some fa)
  show ?thesis
  proof (cases "resolve_target reg fromAgentId request")
    case (Inl e)
    with Some show ?thesis by (simp add: sendMessage_begin_def)
  next
    case (Inr rt)
    obtain routing tid where rt: "rt = (routing, tid)" by (cases rt)
    show ?thesis
    proof (cases "expectsResponse request = Some True \<and> get reg tid \<noteq> None")
      case False
      with Some Inr rt show ?thesis
        by (auto simp: sendMessage_begin_def Let_def split: option.splits)
    next
      case True
      then obtain ta where ta: "get reg tid = Some ta" by auto
      let ?p = "\<lparr>p_messageId = mid, p_fromAgentId = fromAgentId,
          p_fromAgentName = name fa, p_toAgentId = tid,
          p_toAgentName = name ta, p_sentAt = now,
          p_timeout = (case responseTimeout request of None \<Rightarrow> 300000 | Some t \<Rightarrow> t),
          p_originalMessage = message request, p_deliveryAttempts = 1,
          p_responseReceived = False\<rparr>"
      have "pendingMessages (snd (sendMessage_begin reg now mid eid fromAgentId request s))
          = Map_set (pendingMessages s) mid ?p"
        using Some Inr rt True ta by (simp add: sendMessage_begin_def Let_def)
      moreover have "p_messageId ?p = mid" by simp
      ultimately show ?thesis by blast
    qed
  qed
qed

lemma sendMessage_begin_keys:
  "fst ` set (pendingMessages s)
     \<subseteq> fst ` set (pendingMessages (snd (sendMessage_begin reg now mid eid fromAgentId request s)))"
  "fst ` set (pendingMessages (snd (sendMessage_begin reg now mid eid fromAgentId request s)))
     \<subseteq> insert mid (fst ` set (pendingMessages s))"
  using sendMessage_begin_pending [of reg now mid eid fromAgentId request s]
  by (elim disjE exE conjE; simp add: keys_Map_set; blast)+

lemma sendMessage_begin_keyed:
  "keyed_by_id (pendingMessages s) \<Longrightarrow>
   keyed_by_id (pendingMessages (snd (sendMessage_begin reg now mid eid fromAgentId request s)))"
  using sendMessage_begin_pending [of reg now mid eid fromAgentId request s]
  by (elim disjE exE conjE) (simp_all add: keyed_Map_set)

lemma sendMessage_resume_effect:
  "closureCalls (snd (sendMessage_resume call res s)) = closureCalls s"
  "pendingMessages (snd (sendMessage_resume call res s)) =
     (if fst res \<noteq> None \<or> call_targetAgent call = None
      then Map_delete (pendingMessages s) (call_messageId call) else pendingMessages s)"
  "promises s mid = Waiting \<Longrightarrow> promises (snd (sendMessage_resume call res s)) mid = Waiting"
  by (auto simp: sendMessage_resume_def delivery_failed_def Let_def split: option.splits)

lemma handleResponse_begin_effect:
  "(pendingMessages (snd (handleResponse_begin reg now eid did fromAgentId mid resp success err dat s))
      = pendingMessages s
    \<and> closureCalls (snd (handleResponse_begin reg now eid did fromAgentId mid resp success err dat s))
      = closureCalls s
    \<and> promises (snd (handleResponse_begin reg now eid did fromAgentId mid resp success err dat s))
      = promises s)
   \<or> (\<exists>p. Map_get (pendingMessages s) mid = Some p
      \<and> pendingMessages (snd (handleResponse_begin reg now eid did fromAgentId mid resp success err dat s))
          = Map_delete (pendingMessages s) (p_messageId p)
      \<and> closureCalls (snd (handleResponse_begin reg now eid did fromAgentId mid resp success err dat s))
          = closureCalls s @ [(p_messageId p, reject_closure)]
      \<and> promises (snd (handleResponse_begin reg now eid did fromAgentId mid resp success err dat s))
          = promises (pending_reject p ''Original sender no longer available'' s))"
  by (auto simp: handleResponse_begin_def Let_def split: option.splits)

lemma handleResponse_begin_keys:
  "fst ` set (pendingMessages
       (snd (handleResponse_begin reg now eid did fromAgentId mid resp success err dat s)))
     \<subseteq> fst ` set (pendingMessages s)"
  using handleResponse_begin_effect [of reg now eid did fromAgentId mid resp success err dat s]
  by (elim disjE exE conjE; simp add: keys_Map_delete; blast)

lemma handleResponse_resume_effect:
  "pendingMessages (snd (handleResponse_resume rc res now s))
     = Map_delete (pendingMessages s) (p_messageId (rc_pending rc))"
  "closureCalls (snd (handleResponse_resume rc res now s))
     = closureCalls s @ [(p_messageId (rc_pending rc), resolve_closure)]"
  "p_messageId (rc_pending rc) \<noteq> mid
     \<Longrightarrow> promises (snd (handleResponse_resume rc res now s)) mid = promises s mid"
  by (auto simp: handleResponse_resume_def Let_def pending_resolve_promises split: option.splits)

lemma broadcast_effect:
  "pendingMessages (snd (broadcast d rnd reg now eid fromAgentId channel msg dat s)) = pendingMessages s"
  "closureCalls (snd (broadcast d rnd reg now eid fromAgentId channel msg dat s)) = closureCalls s"
  "promises (snd (broadcast d rnd reg now eid fromAgentId channel msg dat s)) = promises s"
  by (simp_all add: broadcast_def Let_def foldl_log_deliveries split: option.splits)

lemma destroy_effect:
  "pendingMessages (destroy s) = []"
  "closureCalls (destroy s)
     = closureCalls s @ map (\<lambda>kv. (p_messageId (snd kv), reject_closure)) (pendingMessages s)"
  "mid \<notin> p_messageId ` snd ` set (pendingMessages s)
     \<Longrightarrow> promises (destroy s) mid = promises s mid"
  by (simp_all add: destroy_def clearPending_effect)

lemma calls_since_append: "closureCalls s' = closureCalls s @ new \<Longrightarrow> calls_since s s' = new"
  by (simp add: calls_since_def)

lemma calls_since_same: "closureCalls s' = closureCalls s \<Longrightarrow> calls_since s s' = []"
  by (simp add: calls_since_def)

lemma step_keyed:
  assumes "keyed_by_id (pendingMessages s)"
  shows "keyed_by_id (pendingMessages (step op s))"
proof (cases op)
  case (op_sendMessage_begin reg now mid eid fromAgentId request)
  with assms show ?thesis by (simp add: sendMessage_begin_keyed)
next
  case (op_sendMessage_resume call res)
  with assms show ?thesis by (simp add: sendMessage_resume_effect keyed_Map_delete)
next
  case (op_handleResponse_begin reg now eid did fromAgentId mid resp success err dat)
  with assms handleResponse_begin_effect [of reg now eid did fromAgentId mid resp success err dat s]
  show ?thesis by (auto simp: keyed_Map_delete)
next
  case (op_handleResponse_resume rc res now)
  with assms show ?thesis by (simp add: handleResponse_resume_effect keyed_Map_delete)
next
  case (op_broadcast d rnd reg now eid fromAgentId channel msg dat)
  with assms show ?thesis by (simp add: broadcast_effect)
next
  case (op_checkTimeouts sec now)
  with assms show ?thesis by (simp add: checkTimeouts_effect)
next
  case op_clearPending
  then show ?thesis by (simp add: clearPending_effect keyed_by_id_def)
next
  case op_destroy
  then show ?thesis by (simp add: destroy_effect keyed_by_id_def)
qed

lemma step_removed:
  assumes k: "keyed_by_id (pendingMessages s)"
    and i: "mid \<in> fst ` set (pendingMessages s)"
    and o: "mid \<notin> fst ` set (pendingMessages (step op s))"
  shows "mid \<in> fst ` set (calls_since s (step op s)) \<or> failed_delivery_of mid op"
proof (cases op)
  case (op_sendMessage_begin reg now mid' eid fromAgentId request)
  with i o sendMessage_begin_keys(1) [of s reg now mid' eid fromAgentId request]
  show ?thesis by auto
next
  case (op_sendMessage_resume call res)
  with i o show ?thesis
    by (auto simp: sendMessage_resume_effect keys_Map_delete split: if_splits)
next
  case (op_handleResponse_begin reg now eid did fromAgentId mid' resp success err dat)
  let ?s' = "snd (handleResponse_begin reg now eid did fromAgentId mid' resp success err dat s)"
  from handleResponse_begin_effect [of reg now eid did fromAgentId mid' resp success err dat s]
  show ?thesis
  proof (elim disjE exE conjE)
    assume "pendingMessages ?s' = pendingMessages s"
    with i o op_handleResponse_begin show ?thesis by simp
  next
    fix p
    assume r: "pendingMessages ?s' = Map_delete (pendingMessages s) (p_messageId p)"
      and c: "closureCalls ?s' = closureCalls s @ [(p_messageId p, reject_closure)]"
    from c have "calls_since s ?s' = [(p_messageId p, reject_closure)]"
      by (rule calls_since_append)
    with i o r op_handleResponse_begin show ?thesis by (auto simp: keys_Map_delete)
  qed
next
  case (op_handleResponse_resume rc res now)
  let ?s' = "snd (handleResponse_resume rc res now s)"
  have "calls_since s ?s' = [(p_messageId (rc_pending rc), resolve_closure)]"
    by (rule calls_since_append) (simp add: handleResponse_resume_effect)
  with i o op_handleResponse_resume show ?thesis
    by (auto simp: handleResponse_resume_effect keys_Map_delete)
next
  case (op_broadcast d rnd reg now eid fromAgentId channel msg dat)
  with i o show ?thesis by (simp add: broadcast_effect)
next
  case (op_checkTimeouts sec now)
  let ?due = "filter (\<lambda>kv. now - p_sentAt (snd kv) > p_timeout (snd kv)) (pendingMessages s)"
  have "calls_since s (checkTimeouts sec now s) = map (\<lambda>kv. (fst kv, reject_closure)) ?due"
    by (rule calls_since_append) (rule checkTimeouts_effect(1) [OF k])
  then have "fst ` set (calls_since s (checkTimeouts sec now s)) = fst ` set ?due"
    by (simp add: image_image)
  with i o op_checkTimeouts checkTimeouts_effect(2) [OF k, of sec now] show ?thesis by auto
next
  case op_clearPending
  have "calls_since s (clearPending s)
      = map (\<lambda>kv. (p_messageId (snd kv), reject_closure)) (pendingMessages s)"
    by (rule calls_since_append) (rule clearPending_effect(2))
  then have "fst ` set (calls_since s (clearPending s)) = p_messageId ` snd ` set (pendingMessages s)"
    by (simp add: image_image)
  with i op_clearPending keyed_ids [OF k] show ?thesis by simp
next
  case op_destroy
  have "calls_since s (destroy s)
      = map (\<lambda>kv. (p_messageId (snd kv), reject_closure)) (pendingMessages s)"
    by (rule calls_since_append) (rule destroy_effect(2))
  then have "fst ` set (calls_since s (destroy s)) = p_messageId ` snd ` set (pendingMessages s)"
    by (simp add: image_image)
  with i op_destroy keyed_ids [OF k] show ?thesis by simp
qed

lemma step_absent:
  assumes k: "keyed_by_id (pendingMessages s)"
    and a: "mid \<notin> fst ` set (pendingMessages s)" and d: "\<not> draws_id mid op"
  shows "mid \<notin> fst ` set (pendingMessages (step op s))"
proof (cases op)
  case (op_sendMessage_begin reg now mid' eid fromAgentId request)
  with a d sendMessage_begin_keys(2) [of reg now mid' eid fromAgentId request s]
  show ?thesis by auto
next
  case (op_sendMessage_resume call res)
  with a show ?thesis by (simp add: sendMessage_resume_effect keys_Map_delete)
next
  case (op_handleResponse_begin reg now eid did fromAgentId mid' resp success err dat)
  with a handleResponse_begin_keys [of reg now eid did fromAgentId mid' resp success err dat s]
  show ?thesis by auto
next
  case (op_handleResponse_resume rc res now)
  with a show ?thesis by (simp add: handleResponse_resume_effect keys_Map_delete)
next
  case (op_broadcast d rnd reg now eid fromAgentId channel msg dat)
  with a show ?thesis by (simp add: broadcast_effect)
next
  case (op_checkTimeouts sec now)
  with a checkTimeouts_effect(2) [OF k, of sec now] show ?thesis by simp
next
  case op_clearPending
  then show ?thesis by (simp add: clearPending_effect)
next
  case op_destroy
  then show ?thesis by (simp add: destroy_effect)
qed

lemma keyed_new_router: "keyed_by_id (pendingMessages new_router)"
  by (simp add: new_router_def keyed_by_id_def)

lemma early_sent_fst: "fst early_sent = AwaitingDelivery early_call"
  by (simp add: early_sent_def early_call_def sendMessage_begin_def resolve_target_def
      ex_registry_get ex_request_def truthy_def agent_of_def Let_def)

lemma early_sent_effects:
  "closureCalls (snd early_sent) = []" "promises (snd early_sent) = (\<lambda>_. Unassigned)"
  "deliveries (snd early_sent) = []"
  by (simp_all add: early_sent_def sendMessage_begin_def resolve_target_def
      ex_registry_get ex_request_def truthy_def agent_of_def Let_def new_router_def)

lemma early_sent_keyed: "keyed_by_id (pendingMessages (snd early_sent))"
  by (simp add: early_sent_pending keyed_by_id_def)

text \<open>
  C3, as the code has it. In a router state whose pending entries are stored under
  their own message ids (every step keeps this, and it holds initially), a step that
  removes the entry of a message id either invokes the resolve or reject closure of
  that id in the same step, or it is the failed delivery of the \<^verbatim>\<open>sendMessage\<close> call that
  drew the id, which deletes the entry from the map directly. Once an id has no entry,
  no step gives it one again unless \<^verbatim>\<open>sendMessage\<close> draws the same id anew;
  \<^verbatim>\<open>handleResponse\<close> for it reports \<^verbatim>\<open>delivered: false\<close>; and the sweep,
  \<^verbatim>\<open>clearPending\<close> and \<^verbatim>\<open>destroy\<close> invoke no closure for it.
\<close>

theorem pending_removed_once:
  assumes "keyed_by_id (pendingMessages s)"
  shows "keyed_by_id (pendingMessages (step op s)) \<and>
    (Map_has (pendingMessages s) mid \<and> \<not> Map_has (pendingMessages (step op s)) mid \<longrightarrow>
       mid \<in> fst ` set (calls_since s (step op s)) \<or> failed_delivery_of mid op) \<and>
    (\<not> Map_has (pendingMessages s) mid \<longrightarrow>
       (\<not> draws_id mid op \<longrightarrow> \<not> Map_has (pendingMessages (step op s)) mid)
       \<and> \<not> delivered (fst (handleResponse d rnd reg now eid did fromAgentId mid resp success err dat s))
       \<and> mid \<notin> fst ` set (calls_since s (checkTimeouts sec t s))
       \<and> mid \<notin> fst ` set (calls_since s (clearPending s))
       \<and> mid \<notin> fst ` set (calls_since s (destroy s)))"
proof (intro conjI impI)
  show "keyed_by_id (pendingMessages (step op s))" using assms by (rule step_keyed)
next
  assume "Map_has (pendingMessages s) mid \<and> \<not> Map_has (pendingMessages (step op s)) mid"
  then have "mid \<in> fst ` set (pendingMessages s)"
    and "mid \<notin> fst ` set (pendingMessages (step op s))"
    by (simp_all add: Map_has_iff)
  with assms show "mid \<in> fst ` set (calls_since s (step op s)) \<or> failed_delivery_of mid op"
    by (rule step_removed)
next
  assume a: "\<not> Map_has (pendingMessages s) mid" and d: "\<not> draws_id mid op"
  from a have "mid \<notin> fst ` set (pendingMessages s)" by (simp add: Map_has_iff)
  with assms have "mid \<notin> fst ` set (pendingMessages (step op s))" using d by (rule step_absent)
  then show "\<not> Map_has (pendingMessages (step op s)) mid" by (simp add: Map_has_iff)
next
  assume "\<not> Map_has (pendingMessages s) mid"
  then have "Map_get (pendingMessages s) mid = None" by (simp add: Map_has_def)
  from handleResponse_not_pending [OF this]
  show "\<not> delivered (fst (handleResponse d rnd reg now eid did fromAgentId mid resp success err dat s))"
    by blast
next
  assume a: "\<not> Map_has (pendingMessages s) mid"
  have "calls_since s (checkTimeouts sec t s) = map (\<lambda>kv. (fst kv, reject_closure))
      (filter (\<lambda>kv. t - p_sentAt (snd kv) > p_timeout (snd kv)) (pendingMessages s))"
    by (rule calls_since_append) (rule checkTimeouts_effect(1) [OF assms])
  then have "fst ` set (calls_since s (checkTimeouts sec t s)) \<subseteq> fst ` set (pendingMessages s)"
    by (auto simp: image_image)
  with a show "mid \<notin> fst ` set (calls_since s (checkTimeouts sec t s))"
    by (auto simp: Map_has_iff)
next
  assume a: "\<not> Map_has (pendingMessages s) mid"
  have "calls_since s (clearPending s)
      = map (\<lambda>kv. (p_messageId (snd kv), reject_closure)) (pendingMessages s)"
    by (rule calls_since_append) (rule clearPending_effect(2))
  then have "fst ` set (calls_since s (clearPending s)) = p_messageId ` snd ` set (pendingMessages s)"
    by (simp add: image_image)
  with a keyed_ids [OF assms] show "mid \<notin> fst ` set (calls_since s (clearPending s))"
    by (simp add: Map_has_iff)
next
  assume a: "\<not> Map_has (pendingMessages s) mid"
  have "calls_since s (destroy s)
      = map (\<lambda>kv. (p_messageId (snd kv), reject_closure)) (pendingMessages s)"
    by (rule calls_since_append) (rule destroy_effect(2))
  then have "fst ` set (calls_since s (destroy s)) = p_messageId ` snd ` set (pendingMessages s)"
    by (simp add: image_image)
  with a keyed_ids [OF assms] show "mid \<notin> fst ` set (calls_since s (destroy s))"
    by (simp add: Map_has_iff)
qed

lemma early_sent_swept:
  "pendingMessages (checkTimeouts sec 7000 (snd early_sent)) = []"
  "closureCalls (checkTimeouts sec 7000 (snd early_sent)) = [(''m-1'', reject_closure)]"
  by (simp_all add: checkTimeouts_def sweep_entry_def early_sent_pending early_sent_effects
      Let_def Map_delete_def)

theorem pending_removed_once_witness:
  "keyed_by_id (pendingMessages (snd early_sent)) \<and>
   Map_has (pendingMessages (snd early_sent)) ''m-1'' \<and>
   \<not> Map_has (pendingMessages (step (op_checkTimeouts (\<lambda>t. ''5'') 7000) (snd early_sent))) ''m-1'' \<and>
   ''m-1'' \<in> fst ` set (calls_since (snd early_sent)
       (step (op_checkTimeouts (\<lambda>t. ''5'') 7000) (snd early_sent))) \<and>
   calls_since (snd early_sent) (step (op_checkTimeouts (\<lambda>t. ''5'') 7000) (snd early_sent))
     = [(''m-1'', reject_closure)] \<and>
   \<not> Map_has (pendingMessages new_router) ''m-1'' \<and>
   \<not> delivered (fst (handleResponse always_delivers (\<lambda>n. 0) ex_registry 1200 ''e-2'' ''d-2'' ''B''
        ''m-1'' ''42 passed'' True None None new_router))"
proof -
  have h: "Map_has (pendingMessages (snd early_sent)) ''m-1''"
    by (simp add: early_sent_pending Map_has_def Map_get_def)
  have g: "\<not> Map_has (pendingMessages (step (op_checkTimeouts (\<lambda>t. ''5'') 7000) (snd early_sent))) ''m-1''"
    by (simp add: early_sent_swept Map_has_def Map_get_def)
  have c: "calls_since (snd early_sent) (step (op_checkTimeouts (\<lambda>t. ''5'') 7000) (snd early_sent))
     = [(''m-1'', reject_closure)]"
    by (simp add: calls_since_def early_sent_swept early_sent_effects)
  have n: "\<not> Map_has (pendingMessages new_router) ''m-1''"
    by (simp add: new_router_def Map_has_def Map_get_def)
  have 1: "''m-1'' \<in> fst ` set (calls_since (snd early_sent)
       (step (op_checkTimeouts (\<lambda>t. ''5'') 7000) (snd early_sent)))"
    using pending_removed_once [OF early_sent_keyed, of "op_checkTimeouts (\<lambda>t. ''5'') 7000" "''m-1''"]
      h g
    by simp
  have 2: "\<not> delivered (fst (handleResponse always_delivers (\<lambda>n. 0) ex_registry 1200 ''e-2'' ''d-2'' ''B''
        ''m-1'' ''42 passed'' True None None new_router))"
    using pending_removed_once [OF keyed_new_router, of _ "''m-1''" always_delivers "\<lambda>n. 0"
        ex_registry 1200 "''e-2''" "''d-2''" "''B''" "''42 passed''" True None None] n
    by blast
  from early_sent_keyed h g 1 c n 2 show ?thesis by (intro conjI)
qed

theorem pending_removed_directly_counterexample:
  "fst early_sent = AwaitingDelivery early_call \<and>
   Map_has (pendingMessages (snd early_sent)) ''m-1'' \<and>
   \<not> Map_has (pendingMessages
        (step (op_sendMessage_resume early_call (Some (Error ''unreachable''), 3, [1500, 2500]))
           (snd early_sent))) ''m-1'' \<and>
   calls_since (snd early_sent)
     (step (op_sendMessage_resume early_call (Some (Error ''unreachable''), 3, [1500, 2500]))
        (snd early_sent)) = [] \<and>
   fst (sendMessage_resume early_call (Some (Error ''unreachable''), 3, [1500, 2500]) (snd early_sent))
     = Returned ((result_of False)\<lparr>messageId := Some ''m-1'', error := Some ''unreachable''\<rparr>)"
proof -
  have h: "Map_has (pendingMessages (snd early_sent)) ''m-1''"
    by (simp add: early_sent_pending Map_has_def Map_get_def)
  have g: "\<not> Map_has (pendingMessages
        (step (op_sendMessage_resume early_call (Some (Error ''unreachable''), 3, [1500, 2500]))
           (snd early_sent))) ''m-1''"
    by (simp add: sendMessage_resume_effect early_sent_pending early_call_def Map_delete_def
        Map_has_def Map_get_def)
  have c: "calls_since (snd early_sent)
     (step (op_sendMessage_resume early_call (Some (Error ''unreachable''), 3, [1500, 2500]))
        (snd early_sent)) = []"
    by (simp add: calls_since_def sendMessage_resume_effect)
  have r: "fst (sendMessage_resume early_call (Some (Error ''unreachable''), 3, [1500, 2500]) (snd early_sent))
     = Returned ((result_of False)\<lparr>messageId := Some ''m-1'', error := Some ''unreachable''\<rparr>)"
    by (simp add: sendMessage_resume_def delivery_failed_def Let_def thrown_message_def
        early_call_def)
  from early_sent_fst h g c r show ?thesis by (intro conjI)
qed

section \<open>A response or a timeout that arrives before the resolver is stored\<close>

text \<open>
  Once the resolver is stored, the sweep settles the promise of an overdue request with
  the timeout failure and removes the entry.
\<close>

lemma sweep_fold_fulfilled:
  "promises s mid = Fulfilled v \<Longrightarrow> promises (foldl (sweep_entry sec now) s kvs) mid = Fulfilled v"
proof (induction kvs arbitrary: s)
  case Nil
  then show ?case by simp
next
  case (Cons kv kvs)
  have "promises (sweep_entry sec now s kv) mid = Fulfilled v"
    using Cons.prems by (auto simp: sweep_entry_effect pending_reject_promises)
  then show ?case by (simp add: Cons.IH)
qed

lemma sweep_fold_rejects:
  assumes "keyed_by_id kvs" and "map_of kvs mid = Some p"
    and "now - p_sentAt p > p_timeout p" and "promises s mid = Waiting"
  shows "promises (foldl (sweep_entry sec now) s kvs) mid =
     Fulfilled ((result_of False)\<lparr>messageId := Some mid, targetAgentId := Some (p_toAgentId p),
        error := Some (timeout_message sec p)\<rparr>)"
  using assms
proof (induction kvs arbitrary: s)
  case Nil
  then show ?case by simp
next
  case (Cons kv kvs)
  from Cons.prems(1) have k: "p_messageId (snd kv) = fst kv" and ks: "keyed_by_id kvs"
    by (simp_all add: keyed_by_id_def)
  show ?case
  proof (cases "fst kv = mid")
    case True
    with Cons.prems(2) have p: "snd kv = p" by (cases kv) simp
    have "promises (sweep_entry sec now s kv) mid =
      Fulfilled ((result_of False)\<lparr>messageId := Some mid, targetAgentId := Some (p_toAgentId p),
        error := Some (timeout_message sec p)\<rparr>)"
      using Cons.prems(3,4) True k p by (simp add: sweep_entry_effect pending_reject_promises)
    then show ?thesis by (simp add: sweep_fold_fulfilled)
  next
    case False
    with Cons.prems(2) have m: "map_of kvs mid = Some p" by (cases kv) (simp split: if_splits)
    have "promises (sweep_entry sec now s kv) mid = Waiting"
      using Cons.prems(4) False k by (simp add: sweep_entry_effect pending_reject_promises)
    from Cons.IH [OF ks m Cons.prems(3) this] show ?thesis by simp
  qed
qed

lemma checkTimeouts_rejects_waiting:
  assumes "keyed_by_id (pendingMessages s)" and "Map_get (pendingMessages s) mid = Some p"
    and "now - p_sentAt p > p_timeout p" and "promises s mid = Waiting"
  shows "promises (checkTimeouts sec now s) mid =
     Fulfilled ((result_of False)\<lparr>messageId := Some mid, targetAgentId := Some (p_toAgentId p),
        error := Some (timeout_message sec p)\<rparr>)"
    and "\<not> Map_has (pendingMessages (checkTimeouts sec now s)) mid"
proof -
  from assms(2) have m: "map_of (pendingMessages s) mid = Some p" by (simp add: Map_get_def)
  show "promises (checkTimeouts sec now s) mid =
     Fulfilled ((result_of False)\<lparr>messageId := Some mid, targetAgentId := Some (p_toAgentId p),
        error := Some (timeout_message sec p)\<rparr>)"
    unfolding checkTimeouts_def using assms(1) m assms(3,4) by (rule sweep_fold_rejects)
  from m have "(mid, p) \<in> set (pendingMessages s)" by (rule map_of_SomeD)
  with assms(3) have "mid \<in> fst ` set (filter (\<lambda>kv. now - p_sentAt (snd kv) > p_timeout (snd kv))
      (pendingMessages s))"
    by force
  then show "\<not> Map_has (pendingMessages (checkTimeouts sec now s)) mid"
    by (simp add: Map_has_iff checkTimeouts_effect(2) [OF assms(1)])
qed

text \<open>
  A promise whose resolver is stored while the pending map has no entry for its id stays
  unsettled under every step, except a step that draws the same id anew and the second
  half of a \<^verbatim>\<open>handleResponse\<close> call that still holds the pending message.
\<close>

lemma waiting_without_pending_step:
  assumes k: "keyed_by_id (pendingMessages s)"
    and a: "mid \<notin> fst ` set (pendingMessages s)" and w: "promises s mid = Waiting"
    and h: "\<not> holds_pending_of mid op"
  shows "promises (step op s) mid = Waiting"
proof (cases op)
  case (op_sendMessage_begin reg now mid' eid fromAgentId request)
  with w show ?thesis by (simp add: sendMessage_begin_effect)
next
  case (op_sendMessage_resume call res)
  with w show ?thesis by (simp add: sendMessage_resume_effect)
next
  case (op_handleResponse_begin reg now eid did fromAgentId mid' resp success err dat)
  let ?s' = "snd (handleResponse_begin reg now eid did fromAgentId mid' resp success err dat s)"
  from handleResponse_begin_effect [of reg now eid did fromAgentId mid' resp success err dat s]
  have "promises ?s' mid = Waiting"
  proof (elim disjE exE conjE)
    assume "promises ?s' = promises s"
    with w show ?thesis by simp
  next
    fix p
    assume g: "Map_get (pendingMessages s) mid' = Some p"
      and r: "promises ?s' = promises (pending_reject p ''Original sender no longer available'' s)"
    from keyed_Map_get [OF k g] Map_get_Some_key [OF g] a have "p_messageId p \<noteq> mid" by auto
    with w r show ?thesis by (simp add: pending_reject_promises)
  qed
  with op_handleResponse_begin show ?thesis by simp
next
  case (op_handleResponse_resume rc res now)
  with w h show ?thesis by (simp add: handleResponse_resume_effect)
next
  case (op_broadcast d rnd reg now eid fromAgentId channel msg dat)
  with w show ?thesis by (simp add: broadcast_effect)
next
  case (op_checkTimeouts sec now)
  with w a show ?thesis by (simp add: checkTimeouts_effect(4) [OF k])
next
  case op_clearPending
  with w a keyed_ids [OF k] show ?thesis by (simp add: clearPending_effect)
next
  case op_destroy
  with w a keyed_ids [OF k] show ?thesis by (simp add: destroy_effect)
qed

lemma waiting_without_pending_run:
  assumes "keyed_by_id (pendingMessages s)"
    and "mid \<notin> fst ` set (pendingMessages s)" and "promises s mid = Waiting"
    and "list_all (\<lambda>op. \<not> holds_pending_of mid op \<and> \<not> draws_id mid op) ops"
  shows "promises (run ops s) mid = Waiting"
  using assms
proof (induction ops arbitrary: s)
  case Nil
  then show ?case by (simp add: run_def)
next
  case (Cons op ops)
  from Cons.prems have h: "\<not> holds_pending_of mid op" and d: "\<not> draws_id mid op"
    and rest: "list_all (\<lambda>op. \<not> holds_pending_of mid op \<and> \<not> draws_id mid op) ops"
    by simp_all
  have 1: "keyed_by_id (pendingMessages (step op s))" using Cons.prems(1) by (rule step_keyed)
  have 2: "mid \<notin> fst ` set (pendingMessages (step op s))"
    using Cons.prems(1,2) d by (rule step_absent)
  have 3: "promises (step op s) mid = Waiting"
    using Cons.prems(1,2,3) h by (rule waiting_without_pending_step)
  from Cons.IH [OF 1 2 3 rest] show ?case by (simp add: run_def)
qed

lemma early_responding_eval:
  "\<exists>rc. fst early_responding = AwaitingResponseDelivery rc \<and> rc_pending rc =
       \<lparr>p_messageId = ''m-1'', p_fromAgentId = ''A'', p_fromAgentName = ''alpha'',
         p_toAgentId = ''B'', p_toAgentName = ''beta'', p_sentAt = 1000, p_timeout = 5000,
         p_originalMessage = ''run suite'', p_deliveryAttempts = 1,
         p_responseReceived = False\<rparr>"
  "pendingMessages (snd early_responding) = pendingMessages (snd early_sent)"
  "closureCalls (snd early_responding) = []"
  "promises (snd early_responding) = (\<lambda>_. Unassigned)"
  by (simp_all add: early_responding_def handleResponse_begin_def early_sent_pending
      early_sent_effects Map_get_def ex_registry_get Let_def)

lemma early_responded_eval:
  "fst early_responded = \<lparr>delivered = True, h_error = None\<rparr>"
  "pendingMessages (snd early_responded) = []"
  "closureCalls (snd early_responded) = [(''m-1'', resolve_closure)]"
  "promises (snd early_responded) = (\<lambda>_. Unassigned)"
  using early_responding_eval
  by (auto simp: early_responded_def handleResponse_resume_def Let_def early_sent_pending
      Map_delete_def pending_resolve_promises)

text \<open>
  C1, on the code. A sends B a message that expects a response. While the delivery to B
  is still awaited, B's response is handled completely: it is delivered to A and the
  resolve closure runs, which removes the pending entry and finds no resolver stored.
  When the delivery to B then completes, \<^verbatim>\<open>sendMessage\<close> returns a promise whose
  resolver is stored only now: the pending map is empty, the promise is not settled, and
  a later sweep, \<^verbatim>\<open>clearPending\<close> or \<^verbatim>\<open>destroy\<close> does not settle it.
\<close>

theorem early_response_is_lost:
  "fst early_sent = AwaitingDelivery early_call \<and>
   fst early_responded = \<lparr>delivered = True, h_error = None\<rparr> \<and>
   closureCalls (snd early_responded) = [(''m-1'', resolve_closure)] \<and>
   fst early_final = AwaitingResponse ''m-1'' \<and>
   pendingMessages (snd early_final) = [] \<and>
   promises (snd early_final) ''m-1'' = Waiting \<and>
   (\<forall>sec now. promises (checkTimeouts sec now (snd early_final)) ''m-1'' = Waiting) \<and>
   promises (clearPending (snd early_final)) ''m-1'' = Waiting \<and>
   promises (destroy (snd early_final)) ''m-1'' = Waiting"
proof -
  have f: "early_final = sendMessage_resume early_call (None, 1, []) (snd early_responded)"
    by (simp add: early_final_def early_sent_fst)
  have 1: "fst early_final = AwaitingResponse ''m-1''"
    unfolding f by (simp add: sendMessage_resume_def Let_def early_call_def)
  have 2: "pendingMessages (snd early_final) = []"
    unfolding f by (simp add: sendMessage_resume_effect early_call_def early_responded_eval)
  have 3: "promises (snd early_final) ''m-1'' = Waiting"
    unfolding f by (simp add: sendMessage_resume_def Let_def early_call_def)
  have k: "keyed_by_id (pendingMessages (snd early_final))"
    by (simp add: 2 keyed_by_id_def)
  have a: "''m-1'' \<notin> fst ` set (pendingMessages (snd early_final))" by (simp add: 2)
  have 4: "promises (checkTimeouts sec now (snd early_final)) ''m-1'' = Waiting" for sec now
    using waiting_without_pending_step [OF k a 3, of "op_checkTimeouts sec now"] by simp
  have 5: "promises (clearPending (snd early_final)) ''m-1'' = Waiting"
    using waiting_without_pending_step [OF k a 3, of op_clearPending] by simp
  have 6: "promises (destroy (snd early_final)) ''m-1'' = Waiting"
    using waiting_without_pending_step [OF k a 3, of op_destroy] by simp
  from early_sent_fst early_responded_eval(1,3) 1 2 3 4 5 6 show ?thesis by simp
qed

lemma sweep_sent_eval:
  "fst sweep_sent = AwaitingDelivery
     (early_call\<lparr>call_messageEvent := (call_messageEvent early_call)\<lparr>m_responseTimeout := Some 100\<rparr>\<rparr>)"
  "pendingMessages (snd sweep_sent) =
     [(''m-1'', \<lparr>p_messageId = ''m-1'', p_fromAgentId = ''A'', p_fromAgentName = ''alpha'',
         p_toAgentId = ''B'', p_toAgentName = ''beta'', p_sentAt = 1000, p_timeout = 100,
         p_originalMessage = ''run suite'', p_deliveryAttempts = 1,
         p_responseReceived = False\<rparr>)]"
  "closureCalls (snd sweep_sent) = []"
  "promises (snd sweep_sent) = (\<lambda>_. Unassigned)"
  by (simp_all add: sweep_sent_def early_call_def sendMessage_begin_def resolve_target_def
      ex_registry_get ex_request_def truthy_def agent_of_def Let_def new_router_def)

lemma sweep_swept_eval:
  "pendingMessages sweep_swept = []"
  "closureCalls sweep_swept = [(''m-1'', reject_closure)]"
  "promises sweep_swept = (\<lambda>_. Unassigned)"
  by (simp_all add: sweep_swept_def checkTimeouts_def sweep_entry_def sweep_sent_eval Let_def
      Map_delete_def pending_reject_promises)

text \<open>
  C4, on the code. A sends B a message that expects a response within 100 ms. The first
  delivery attempt fails and the retry is still awaited when the sweep runs, 5 seconds
  after the request was stored. The sweep calls the reject closure, which removes the
  entry and finds no resolver stored. When the delivery then succeeds, \<^verbatim>\<open>sendMessage\<close>
  returns a promise whose resolver is stored only now: the promise is not settled, the
  pending map is empty, and no later sweep settles it.
\<close>

theorem early_timeout_is_lost:
  "pendingMessages (snd sweep_sent) =
     [(''m-1'', \<lparr>p_messageId = ''m-1'', p_fromAgentId = ''A'', p_fromAgentName = ''alpha'',
         p_toAgentId = ''B'', p_toAgentName = ''beta'', p_sentAt = 1000, p_timeout = 100,
         p_originalMessage = ''run suite'', p_deliveryAttempts = 1,
         p_responseReceived = False\<rparr>)] \<and>
   sweep_swept = checkTimeouts (\<lambda>t. ''0.1'') 6000 (snd sweep_sent) \<and>
   pendingMessages sweep_swept = [] \<and>
   closureCalls sweep_swept = [(''m-1'', reject_closure)] \<and>
   promises sweep_swept ''m-1'' = Unassigned \<and>
   fst sweep_final = AwaitingResponse ''m-1'' \<and>
   pendingMessages (snd sweep_final) = [] \<and>
   promises (snd sweep_final) ''m-1'' = Waiting \<and>
   (\<forall>sec now. promises (checkTimeouts sec now (snd sweep_final)) ''m-1'' = Waiting)"
proof -
  let ?call = "early_call\<lparr>call_messageEvent :=
      (call_messageEvent early_call)\<lparr>m_responseTimeout := Some 100\<rparr>\<rparr>"
  have f: "sweep_final = sendMessage_resume ?call (None, 2, [1500]) sweep_swept"
    by (simp add: sweep_final_def sweep_sent_eval)
  have 1: "fst sweep_final = AwaitingResponse ''m-1''"
    unfolding f by (simp add: sendMessage_resume_def Let_def early_call_def)
  have 2: "pendingMessages (snd sweep_final) = []"
    unfolding f by (simp add: sendMessage_resume_effect early_call_def sweep_swept_eval)
  have 3: "promises (snd sweep_final) ''m-1'' = Waiting"
    unfolding f by (simp add: sendMessage_resume_def Let_def early_call_def)
  have k: "keyed_by_id (pendingMessages (snd sweep_final))"
    by (simp add: 2 keyed_by_id_def)
  have a: "''m-1'' \<notin> fst ` set (pendingMessages (snd sweep_final))" by (simp add: 2)
  have 4: "promises (checkTimeouts sec now (snd sweep_final)) ''m-1'' = Waiting" for sec now
    using waiting_without_pending_step [OF k a 3, of "op_checkTimeouts sec now"] by simp
  from sweep_sent_eval(2) sweep_swept_eval 1 2 3 4 show ?thesis
    by (simp add: sweep_swept_def)
qed

end
